theory Spec2Isabelle
  imports Main "HOL-Library.Sublist" "HOL-Library.AList"
begin

section \<open>Status codes and errors (constants.go)\<close>

definition StatusOK :: nat where "StatusOK = 200"
definition StatusCreated :: nat where "StatusCreated = 201"
definition StatusNoContent :: nat where "StatusNoContent = 204"
definition StatusBadRequest :: nat where "StatusBadRequest = 400"
definition StatusForbidden :: nat where "StatusForbidden = 403"
definition StatusNotFound :: nat where "StatusNotFound = 404"
definition StatusMethodNotAllowed :: nat where "StatusMethodNotAllowed = 405"
definition StatusConflict :: nat where "StatusConflict = 409"
definition StatusInternalServerError :: nat where "StatusInternalServerError = 500"

text \<open>
  Go errors as values. \<open>ErrInvalidCharPath\<close> and \<open>ErrNotImplemented\<close> are the two error
  variables of constants.go; the others are the error conditions of the host operating
  system (package os) and of reading a request body that the backends and handlers can
  meet.
\<close>

datatype error =
    ErrInvalidCharPath
  | ErrNotImplemented
  | ENOENT | EEXIST | EISDIR | ENOTDIR | ENOTEMPTY | EBADF | EACCES
  | EOF
  | ErrUnexpectedEOF

section \<open>String and path functions of the Go standard library\<close>

text \<open>
  The repository calls \<open>strings.TrimPrefix\<close>, \<open>strings.Trim\<close>, \<open>path.Clean\<close>, \<open>path.Dir\<close>,
  \<open>filepath.FromSlash\<close> and \<open>filepath.Join\<close>. They are library code, modelled here after
  their documented behaviour. A Go string is a byte sequence: \<^typ>\<open>string\<close>.
\<close>

definition strings_TrimPrefix :: "string \<Rightarrow> string \<Rightarrow> string" where
  "strings_TrimPrefix s pre = (if prefix pre s then drop (length pre) s else s)"

definition strings_Trim :: "string \<Rightarrow> string \<Rightarrow> string" where
  "strings_Trim s cutset =
     rev (dropWhile (\<lambda>c. c \<in> set cutset) (rev (dropWhile (\<lambda>c. c \<in> set cutset) s)))"

text \<open>Splitting at every separator; the pieces may be empty.\<close>

fun splitOn :: "(char \<Rightarrow> bool) \<Rightarrow> string \<Rightarrow> string list" where
  "splitOn P [] = [[]]"
| "splitOn P (c # cs) =
     (if P c then [] # splitOn P cs
      else (case splitOn P cs of [] \<Rightarrow> [[c]] | e # es \<Rightarrow> (c # e) # es))"

fun joinWith :: "char \<Rightarrow> string list \<Rightarrow> string" where
  "joinWith sep [] = []"
| "joinWith sep [e] = e"
| "joinWith sep (e # es) = e @ sep # joinWith sep es"

text \<open>
  The element loop of \<open>Clean\<close>: \<open>acc\<close> is the output written so far, last element first.
  Empty elements and \<open>.\<close> are dropped; \<open>..\<close> removes the last real element, is dropped at
  the root of a rooted path, and is kept at the front of a path that is not rooted.
\<close>

definition cleanStep :: "bool \<Rightarrow> string list \<Rightarrow> string \<Rightarrow> string list" where
  "cleanStep rooted acc e =
     (if e = [] \<or> e = ''.'' then acc
      else if e = ''..'' then
        (case acc of
           [] \<Rightarrow> if rooted then [] else [''..'']
         | a # acc' \<Rightarrow> if a = ''..'' then ''..'' # acc else acc')
      else e # acc)"

fun cleanElems :: "bool \<Rightarrow> string list \<Rightarrow> string list \<Rightarrow> string list" where
  "cleanElems rooted acc [] = rev acc"
| "cleanElems rooted acc (e # es) = cleanElems rooted (cleanStep rooted acc e) es"

definition isRooted :: "(char \<Rightarrow> bool) \<Rightarrow> string \<Rightarrow> bool" where
  "isRooted isSep p = (case p of [] \<Rightarrow> False | c # _ \<Rightarrow> isSep c)"

definition normElems :: "(char \<Rightarrow> bool) \<Rightarrow> string \<Rightarrow> string list" where
  "normElems isSep p = cleanElems (isRooted isSep p) [] (splitOn isSep p)"

definition cleanWith :: "(char \<Rightarrow> bool) \<Rightarrow> char \<Rightarrow> string \<Rightarrow> string" where
  "cleanWith isSep sep p =
     (if p = [] then ''.''
      else let out = normElems isSep p in
        if isRooted isSep p then sep # joinWith sep out
        else if out = [] then ''.'' else joinWith sep out)"

text \<open>Package path: the separator is the slash.\<close>

definition isSlash :: "char \<Rightarrow> bool" where
  "isSlash c = (c = CHR ''/'')"

definition path_Clean :: "string \<Rightarrow> string" where
  "path_Clean p = cleanWith isSlash (CHR ''/'') p"

text \<open>\<open>path.Dir\<close>: everything up to the final slash, cleaned.\<close>

definition path_Dir :: "string \<Rightarrow> string" where
  "path_Dir p = path_Clean (rev (dropWhile (\<lambda>c. \<not> isSlash c) (rev p)))"

text \<open>
  Package path/filepath depends on the host. On Unix \<open>Separator\<close> is the slash, and
  \<open>filepath.Clean\<close>, \<open>filepath.Join\<close> and \<open>filepath.Dir\<close> are those of package path, modelled
  above. On Windows \<open>Separator\<close> is the backslash, the slash separates as well, and
  \<open>Clean\<close>, \<open>Join\<close> and \<open>Dir\<close> follow volume-name rules (drive letters, UNC prefixes) that
  are not modelled: a Windows host is given with these three functions of its own.
\<close>

datatype host =
    Unix
  | Windows (winClean: "string \<Rightarrow> string") (winJoin: "string list \<Rightarrow> string")
      (winDir: "string \<Rightarrow> string")

definition Separator :: "host \<Rightarrow> char" where
  "Separator h = (case h of Unix \<Rightarrow> CHR ''/'' | Windows clean join dir \<Rightarrow> CHR 0x5C)"

definition IsPathSeparator :: "host \<Rightarrow> char \<Rightarrow> bool" where
  "IsPathSeparator h c = (c = Separator h \<or> c = CHR ''/'')"

definition filepath_Clean :: "host \<Rightarrow> string \<Rightarrow> string" where
  "filepath_Clean h p =
     (case h of
        Unix \<Rightarrow> cleanWith isSlash (CHR ''/'') p
      | Windows clean join dir \<Rightarrow> clean p)"

text \<open>\<open>filepath.FromSlash\<close>: every slash becomes the separator.\<close>

definition filepath_FromSlash :: "host \<Rightarrow> string \<Rightarrow> string" where
  "filepath_FromSlash h p =
     (if Separator h = CHR ''/'' then p
      else map (\<lambda>c. if c = CHR ''/'' then Separator h else c) p)"

text \<open>
  \<open>filepath.Join\<close> on Unix: the elements from the first one that is not empty, joined
  by slashes and cleaned; the empty string when all are empty.
\<close>

definition filepath_Join :: "host \<Rightarrow> string list \<Rightarrow> string" where
  "filepath_Join h elem =
     (case h of
        Unix \<Rightarrow>
          (case dropWhile (\<lambda>e. e = []) elem of
             [] \<Rightarrow> []
           | es \<Rightarrow> filepath_Clean Unix (joinWith (CHR ''/'') es))
      | Windows clean join dir \<Rightarrow> join elem)"

section \<open>The local directory backend: path sanitisation (type Dir)\<close>

text \<open>
  \<open>Dir.sanitizePath\<close>: a name holding the host's separator (when that is not the slash)
  or a null byte is refused; otherwise the name is rooted, cleaned and joined onto the
  backend's directory, \<open>.\<close> standing for an empty one.
\<close>

definition sanitizePath :: "host \<Rightarrow> string \<Rightarrow> string \<Rightarrow> error + string" where
  "sanitizePath h d name =
     (if Separator h \<noteq> CHR ''/'' \<and> Separator h \<in> set name \<or> CHR 0x00 \<in> set name
      then Inl ErrInvalidCharPath
      else let dir = (if d = [] then ''.'' else d)
           in Inr (filepath_Join h
                     [dir, filepath_FromSlash h (path_Clean (CHR ''/'' # name))]))"

text \<open>
  Lexical containment of a Unix host path in a root: both are read as element lists the
  way \<open>filepath.Clean\<close> reads them on Unix; the path is rooted exactly when the root is, it
  has the root's elements in front, and no \<open>..\<close> after them.
\<close>

definition within :: "string \<Rightarrow> string \<Rightarrow> bool" where
  "within root p =
     (let r = normElems isSlash root;
          q = normElems isSlash p
      in isRooted isSlash p = isRooted isSlash root \<and> prefix r q \<and>
         ''..'' \<notin> set (drop (length r) q))"

text \<open>The elements of a cleaned rooted logical name, and the shapes used in the proofs.\<close>

definition nameElems :: "string \<Rightarrow> string list" where
  "nameElems name = normElems isSlash (CHR ''/'' # name)"

definition realElem :: "string \<Rightarrow> bool" where
  "realElem e = (e \<noteq> [] \<and> e \<noteq> ''.'' \<and> e \<noteq> ''..'')"

fun accOK :: "bool \<Rightarrow> string list \<Rightarrow> bool" where
  "accOK r [] = True"
| "accOK r (a # acc) =
     (a \<noteq> [] \<and> a \<noteq> ''.'' \<and>
      (if a = ''..'' then \<not> r \<and> (\<forall>b\<in>set acc. b = ''..'') else accOK r acc))"

section \<open>The FileSystem and File interfaces\<close>

record FileInfo =
  IsDir :: bool
  ModTime :: nat

text \<open>
  The interfaces \<open>FileSystem\<close> (Open, Create, Mkdir, Remove) and \<open>File\<close> (Stat, Write, Read,
  Seek, Close; Readdir is never called) as one record of operations on a backend state
  \<^typ>\<open>'fs\<close> with handles \<^typ>\<open>'h\<close>. An operation returns its Go result and the new state; a
  Go \<open>error\<close> result is \<open>None\<close> for \<open>nil\<close>. \<open>Write\<close> returns \<open>nil\<close> only when it took the whole
  slice. \<open>Seek\<close> is the call \<open>Seek(0, io.SeekEnd)\<close>, the size of the content, and \<open>Read\<close> the
  bytes that reading from the start delivers before \<open>io.EOF\<close>; both move the handle's
  offset only, which the model does not keep.
\<close>

record ('fs, 'h) FileSystem =
  Open :: "string \<Rightarrow> 'fs \<Rightarrow> (error + 'h) \<times> 'fs"
  Create :: "string \<Rightarrow> 'fs \<Rightarrow> (error + 'h) \<times> 'fs"
  Mkdir :: "string \<Rightarrow> 'fs \<Rightarrow> error option \<times> 'fs"
  Remove :: "string \<Rightarrow> 'fs \<Rightarrow> error option \<times> 'fs"
  Stat :: "'h \<Rightarrow> 'fs \<Rightarrow> (error + FileInfo) \<times> 'fs"
  Write :: "'h \<Rightarrow> string \<Rightarrow> 'fs \<Rightarrow> error option \<times> 'fs"
  Seek :: "'h \<Rightarrow> 'fs \<Rightarrow> error + nat"
  Read :: "'h \<Rightarrow> 'fs \<Rightarrow> string"
  Close :: "'h \<Rightarrow> 'fs \<Rightarrow> error option \<times> 'fs"

text \<open>
  An \<open>io.ReadSeeker\<close> as \<open>http.ServeContent\<close> sees it: the size a seek to the end reports,
  and the bytes reading delivers.
\<close>

record ReadSeeker =
  rsSeekEnd :: "error + nat"
  rsRead :: string

definition fileReadSeeker :: "('fs, 'h) FileSystem \<Rightarrow> 'h \<Rightarrow> 'fs \<Rightarrow> ReadSeeker" where
  "fileReadSeeker B f fs = \<lparr>rsSeekEnd = Seek B f fs, rsRead = Read B f fs\<rparr>"

text \<open>
  \<open>emptyFile\<close>: \<open>Read\<close> returns \<open>0, io.EOF\<close> for every buffer (here the bytes read, none, and
  the error), \<open>Seek\<close> returns \<open>0, nil\<close> for every offset and whence.
\<close>

definition emptyFile_Read :: "nat \<Rightarrow> string \<times> error option" where
  "emptyFile_Read len_p = ([], Some EOF)"

definition emptyFile_Seek :: "int \<Rightarrow> int \<Rightarrow> int \<times> error option" where
  "emptyFile_Seek offset whence = (0, None)"

definition io_SeekEnd :: int where
  "io_SeekEnd = 2"

definition emptyFile :: ReadSeeker where
  "emptyFile =
     \<lparr>rsSeekEnd = (case emptyFile_Seek 0 io_SeekEnd of
                     (ret, None) \<Rightarrow> Inr (nat ret)
                   | (ret, Some err) \<Rightarrow> Inl err),
      rsRead = fst (emptyFile_Read 512)\<rparr>"

section \<open>Requests and responses (net/http)\<close>

text \<open>
  Of a request the handlers read the method, the URL's path, the request URI and the
  body. The body is the chunks its \<open>Read\<close> returns, ended by \<open>io.EOF\<close> (\<open>BodyErr = None\<close>) or
  by an error. Request headers are not modelled: the requests of the model carry no
  conditional and no range header.
\<close>

record URL =
  Path :: string

record Request =
  Method :: string
  URL :: URL
  RequestURI :: string
  Body :: "string list"
  BodyErr :: "error option"

datatype hval = Text string | Num nat | Time nat

record ResponseWriter =
  status :: "nat option"
  header :: "(string \<times> hval) list"
  body :: string

definition newResponse :: ResponseWriter where
  "newResponse = \<lparr>status = None, header = [], body = []\<rparr>"

text \<open>\<open>WriteHeader\<close>: the first status written is the one sent.\<close>

definition WriteHeader :: "ResponseWriter \<Rightarrow> nat \<Rightarrow> ResponseWriter" where
  "WriteHeader w code = (if status w = None then w\<lparr>status := Some code\<rparr> else w)"

definition Header_Set :: "ResponseWriter \<Rightarrow> string \<Rightarrow> hval \<Rightarrow> ResponseWriter" where
  "Header_Set w k v = w\<lparr>header := AList.update k v (header w)\<rparr>"

text \<open>\<open>http.Error\<close>: a plain-text reply of the message and a newline.\<close>

definition http_Error :: "ResponseWriter \<Rightarrow> string \<Rightarrow> nat \<Rightarrow> ResponseWriter" where
  "http_Error w msg code =
     (let w1 = Header_Set w ''Content-Type'' (Text ''text/plain; charset=utf-8'');
          w2 = Header_Set w1 ''X-Content-Type-Options'' (Text ''nosniff'');
          w3 = WriteHeader w2 code
      in w3\<lparr>body := body w3 @ msg @ [CHR 0x0A]\<rparr>)"

text \<open>
  \<open>http.ServeContent\<close> for a request without conditional or range headers, after its
  documentation: the \<open>Last-Modified\<close> header is set from a modification time that is not
  the zero time; the size is found by seeking to the end of the content, a failed seek
  giving status 500; \<open>Accept-Ranges\<close> and \<open>Content-Length\<close> (the size) are set, status 200 is
  written and, unless the method is HEAD, the content is copied to the body. The
  \<open>Content-Type\<close> header, found from the name's extension or from the first bytes of the
  content, is left out.
\<close>

definition ServeContent ::
  "ResponseWriter \<Rightarrow> Request \<Rightarrow> string \<Rightarrow> nat \<Rightarrow> ReadSeeker \<Rightarrow> ResponseWriter" where
  "ServeContent w r name modtime content =
     (let w1 = (if modtime = 0 then w else Header_Set w ''Last-Modified'' (Time modtime))
      in case rsSeekEnd content of
           Inl e \<Rightarrow> http_Error w1 ''seeker can't seek'' StatusInternalServerError
         | Inr sz \<Rightarrow>
             let w2 = Header_Set w1 ''Accept-Ranges'' (Text ''bytes'');
                 w3 = Header_Set w2 ''Content-Length'' (Num sz);
                 w4 = WriteHeader w3 StatusOK
             in if Method r \<noteq> ''HEAD''
                then w4\<lparr>body := body w4 @ take sz (rsRead content)\<rparr>
                else w4)"

text \<open>
  \<open>io.Copy(file, r.Body)\<close>: every chunk read is written to the file; a failed write, or
  the error that ends the body, ends the copy with that error.
\<close>

fun io_Copy ::
  "('fs, 'h) FileSystem \<Rightarrow> 'h \<Rightarrow> string list \<Rightarrow> error option \<Rightarrow> 'fs \<Rightarrow> error option \<times> 'fs" where
  "io_Copy B file [] bodyErr fs = (bodyErr, fs)"
| "io_Copy B file (c # cs) bodyErr fs =
     (case Write B file c fs of
        (Some err, fs') \<Rightarrow> (Some err, fs')
      | (None, fs') \<Rightarrow> io_Copy B file cs bodyErr fs')"

section \<open>The server (server.go)\<close>

record ('fs, 'h) Server =
  TrimPrefix :: string
  ReadOnly :: bool
  Listings :: bool
  Fs :: "('fs, 'h) FileSystem"

text \<open>\<open>Handler\<close>: a server on a backend, with no prefix.\<close>

definition Handler :: "('fs, 'h) FileSystem \<Rightarrow> ('fs, 'h) Server" where
  "Handler root = \<lparr>TrimPrefix = [], ReadOnly = False, Listings = False, Fs = root\<rparr>"

text \<open>\<open>Server.url2path\<close>; the logging calls of the handlers are left out throughout.\<close>

definition url2path :: "('fs, 'h) Server \<Rightarrow> URL \<Rightarrow> string" where
  "url2path s u =
     (if Path u = [] then ''/''
      else let p = strings_TrimPrefix (Path u) (TrimPrefix s)
           in if length p < length (Path u) then strings_Trim p ''/'' else ''/'')"

text \<open>
  The path resolver as the specification words it: the root for an empty path and for a
  path that does not start with the prefix, else the path without the prefix, trimmed.
\<close>

definition url2path_spec :: "string \<Rightarrow> string \<Rightarrow> string" where
  "url2path_spec rawURLPath pre =
     (if rawURLPath = [] then ''/''
      else if \<not> prefix pre rawURLPath then ''/''
      else strings_Trim (drop (length pre) rawURLPath) ''/'')"

text \<open>
  \<open>Server.pathExists\<close> and \<open>Server.pathIsDirectory\<close>. The two copies of each in server.go
  differ in closing the handle by \<open>defer\<close> or by hand: the same calls in the same order.
\<close>

definition pathExists :: "('fs, 'h) Server \<Rightarrow> string \<Rightarrow> 'fs \<Rightarrow> bool \<times> 'fs" where
  "pathExists s path fs =
     (case Open (Fs s) path fs of
        (Inl err, fs1) \<Rightarrow> (False, fs1)
      | (Inr f, fs1) \<Rightarrow> (True, snd (Close (Fs s) f fs1)))"

definition pathIsDirectory :: "('fs, 'h) Server \<Rightarrow> string \<Rightarrow> 'fs \<Rightarrow> bool \<times> 'fs" where
  "pathIsDirectory s path fs =
     (case Open (Fs s) path fs of
        (Inl err, fs1) \<Rightarrow> (False, fs1)
      | (Inr f, fs1) \<Rightarrow>
          (case Stat (Fs s) f fs1 of
             (Inl err, fs2) \<Rightarrow> (False, snd (Close (Fs s) f fs2))
           | (Inr fi, fs2) \<Rightarrow> (IsDir fi, snd (Close (Fs s) f fs2))))"

text \<open>\<open>Server.serveResource\<close>, behind \<open>doGet\<close> and \<open>doHead\<close>; the deferred Close runs last.\<close>

definition serveResource ::
  "('fs, 'h) Server \<Rightarrow> ResponseWriter \<Rightarrow> Request \<Rightarrow> bool \<Rightarrow> 'fs \<Rightarrow> ResponseWriter \<times> 'fs" where
  "serveResource s w r serveContent fs =
     (let path = url2path s (URL r)
      in case Open (Fs s) path fs of
           (Inl err, fs1) \<Rightarrow> (http_Error w (RequestURI r) StatusNotFound, fs1)
         | (Inr f, fs1) \<Rightarrow>
             (case Stat (Fs s) f fs1 of
                (Inl err, fs2) \<Rightarrow>
                  (http_Error w (RequestURI r) StatusNotFound, snd (Close (Fs s) f fs2))
              | (Inr fi, fs2) \<Rightarrow>
                  (let modTime = ModTime fi;
                       w' = (if serveContent
                             then ServeContent w r path modTime (fileReadSeeker (Fs s) f fs2)
                             else ServeContent w r path modTime emptyFile)
                   in (w', snd (Close (Fs s) f fs2)))))"

definition doGet ::
  "('fs, 'h) Server \<Rightarrow> ResponseWriter \<Rightarrow> Request \<Rightarrow> 'fs \<Rightarrow> ResponseWriter \<times> 'fs" where
  "doGet s w r fs = serveResource s w r True fs"

definition doHead ::
  "('fs, 'h) Server \<Rightarrow> ResponseWriter \<Rightarrow> Request \<Rightarrow> 'fs \<Rightarrow> ResponseWriter \<times> 'fs" where
  "doHead s w r fs = serveResource s w r False fs"

text \<open>\<open>Server.deleteResource\<close> and \<open>Server.doDelete\<close>.\<close>

definition deleteResource ::
  "('fs, 'h) Server \<Rightarrow> string \<Rightarrow> ResponseWriter \<Rightarrow> Request \<Rightarrow> bool \<Rightarrow> 'fs \<Rightarrow>
   bool \<times> ResponseWriter \<times> 'fs" where
  "deleteResource s path w r setStatus fs =
     (case pathExists s path fs of
        (False, fs1) \<Rightarrow> (False, WriteHeader w StatusNotFound, fs1)
      | (True, fs1) \<Rightarrow>
          (case pathIsDirectory s path fs1 of
             (False, fs2) \<Rightarrow>
               (case Remove (Fs s) path fs2 of
                  (Some err, fs3) \<Rightarrow> (False, WriteHeader w StatusInternalServerError, fs3)
                | (None, fs3) \<Rightarrow>
                    (True, if setStatus then WriteHeader w StatusNoContent else w, fs3))
           | (True, fs2) \<Rightarrow>
               (True, if setStatus then WriteHeader w StatusNoContent else w, fs2)))"

definition doDelete ::
  "('fs, 'h) Server \<Rightarrow> ResponseWriter \<Rightarrow> Request \<Rightarrow> 'fs \<Rightarrow> ResponseWriter \<times> 'fs" where
  "doDelete s w r fs =
     (if ReadOnly s then (WriteHeader w StatusForbidden, fs)
      else snd (deleteResource s (url2path s (URL r)) w r True fs))"

text \<open>
  \<open>Server.doPut\<close>, the first of the two in server.go (lines 210 to 262): the directory
  check is commented out, and \<open>Mkdir\<close> is called on the parent, its error only logged.
\<close>

definition doPut ::
  "('fs, 'h) Server \<Rightarrow> ResponseWriter \<Rightarrow> Request \<Rightarrow> 'fs \<Rightarrow> ResponseWriter \<times> 'fs" where
  "doPut s w r fs =
     (if ReadOnly s then (WriteHeader w StatusForbidden, fs)
      else
        let myPath = url2path s (URL r);
            (err, fs1) = Mkdir (Fs s) (path_Dir myPath) fs;
            (exists, fs2) = pathExists s myPath fs1
        in case Create (Fs s) myPath fs2 of
             (Inl err, fs3) \<Rightarrow> (WriteHeader w StatusConflict, fs3)
           | (Inr file, fs3) \<Rightarrow>
               (case io_Copy (Fs s) file (Body r) (BodyErr r) fs3 of
                  (Some err, fs4) \<Rightarrow>
                    (WriteHeader w StatusConflict, snd (Close (Fs s) file fs4))
                | (None, fs4) \<Rightarrow>
                    (if exists then WriteHeader w StatusNoContent
                     else WriteHeader w StatusCreated,
                     snd (Close (Fs s) file fs4))))"

text \<open>
  \<open>Server.doPut\<close>, the second (lines 472 to 525): a directory is refused with 405, no
  \<open>Mkdir\<close>; after a failed copy the file is closed twice.
\<close>

definition doPut2 ::
  "('fs, 'h) Server \<Rightarrow> ResponseWriter \<Rightarrow> Request \<Rightarrow> 'fs \<Rightarrow> ResponseWriter \<times> 'fs" where
  "doPut2 s w r fs =
     (if ReadOnly s then (WriteHeader w StatusForbidden, fs)
      else
        let path = url2path s (URL r);
            (isDir, fs1) = pathIsDirectory s path fs
        in if isDir then (WriteHeader w StatusMethodNotAllowed, fs1)
           else
             let (exists, fs2) = pathExists s path fs1
             in case Create (Fs s) path fs2 of
                  (Inl err, fs3) \<Rightarrow> (WriteHeader w StatusConflict, fs3)
                | (Inr file, fs3) \<Rightarrow>
                    (case io_Copy (Fs s) file (Body r) (BodyErr r) fs3 of
                       (Some err, fs4) \<Rightarrow>
                         (WriteHeader w StatusConflict,
                          snd (Close (Fs s) file (snd (Close (Fs s) file fs4))))
                     | (None, fs4) \<Rightarrow>
                         (if exists then WriteHeader w StatusNoContent
                          else WriteHeader w StatusCreated,
                          snd (Close (Fs s) file fs4))))"

text \<open>\<open>Server.ServeHTTP\<close>, with the first \<open>doPut\<close> and with the second.\<close>

definition ServeHTTP ::
  "('fs, 'h) Server \<Rightarrow> ResponseWriter \<Rightarrow> Request \<Rightarrow> 'fs \<Rightarrow> ResponseWriter \<times> 'fs" where
  "ServeHTTP s w r fs =
     (if Method r = ''GET'' then doGet s w r fs
      else if Method r = ''HEAD'' then doHead s w r fs
      else if Method r = ''DELETE'' then doDelete s w r fs
      else if Method r = ''PUT'' then doPut s w r fs
      else (WriteHeader w StatusBadRequest, fs))"

definition ServeHTTP2 ::
  "('fs, 'h) Server \<Rightarrow> ResponseWriter \<Rightarrow> Request \<Rightarrow> 'fs \<Rightarrow> ResponseWriter \<times> 'fs" where
  "ServeHTTP2 s w r fs =
     (if Method r = ''GET'' then doGet s w r fs
      else if Method r = ''HEAD'' then doHead s w r fs
      else if Method r = ''DELETE'' then doDelete s w r fs
      else if Method r = ''PUT'' then doPut2 s w r fs
      else (WriteHeader w StatusBadRequest, fs))"

section \<open>Recording the calls a handler makes\<close>

text \<open>
  A backend wrapped so that every call that can change it, or that opens, inspects or
  releases a handle, is appended to a log kept beside the backend's state. Running a
  handler on the wrapped backend tells which calls it made, in order.
\<close>

datatype 'h call =
    Call_Open string
  | Call_Create string
  | Call_Mkdir string
  | Call_Remove string
  | Call_Stat 'h
  | Call_Write 'h string
  | Call_Close 'h

definition logged :: "('fs, 'h) FileSystem \<Rightarrow> ('fs \<times> 'h call list, 'h) FileSystem" where
  "logged B =
     \<lparr>Open = (\<lambda>name (fs, l). case Open B name fs of (res, fs') \<Rightarrow> (res, (fs', l @ [Call_Open name]))),
      Create = (\<lambda>name (fs, l). case Create B name fs of (res, fs') \<Rightarrow> (res, (fs', l @ [Call_Create name]))),
      Mkdir = (\<lambda>name (fs, l). case Mkdir B name fs of (res, fs') \<Rightarrow> (res, (fs', l @ [Call_Mkdir name]))),
      Remove = (\<lambda>name (fs, l). case Remove B name fs of (res, fs') \<Rightarrow> (res, (fs', l @ [Call_Remove name]))),
      Stat = (\<lambda>f (fs, l). case Stat B f fs of (res, fs') \<Rightarrow> (res, (fs', l @ [Call_Stat f]))),
      Write = (\<lambda>f p (fs, l). case Write B f p fs of (res, fs') \<Rightarrow> (res, (fs', l @ [Call_Write f p]))),
      Seek = (\<lambda>f (fs, l). Seek B f fs),
      Read = (\<lambda>f (fs, l). Read B f fs),
      Close = (\<lambda>f (fs, l). case Close B f fs of (res, fs') \<Rightarrow> (res, (fs', l @ [Call_Close f])))\<rparr>"

definition spy :: "('fs, 'h) Server \<Rightarrow> ('fs \<times> 'h call list, 'h) Server" where
  "spy s = \<lparr>TrimPrefix = TrimPrefix s, ReadOnly = ReadOnly s, Listings = Listings s,
            Fs = logged (Fs s)\<rparr>"

fun mutating :: "'h call \<Rightarrow> bool" where
  "mutating (Call_Create name) = True"
| "mutating (Call_Mkdir name) = True"
| "mutating (Call_Remove name) = True"
| "mutating (Call_Write f p) = True"
| "mutating (Call_Open name) = False"
| "mutating (Call_Stat f) = False"
| "mutating (Call_Close f) = False"

section \<open>The host file system under the local directory backend (package os)\<close>

text \<open>
  \<open>Dir\<close> hands its sanitised paths to \<open>os.Open\<close>, \<open>os.Create\<close>, \<open>os.MkdirAll\<close> and \<open>os.Remove\<close>.
  The host is modelled as the list of the paths that exist, each a regular file with its
  bytes or a directory; paths are the cleaned strings \<open>sanitizePath\<close> returns, and the
  parent of a path is \<open>filepath.Dir\<close> of it. Permissions, links and modification times are
  not modelled (\<open>ModTime\<close> is the zero time). A handle is the path it was opened on and
  whether it was opened for writing; a write appends, as it does on a handle that
  \<open>os.Create\<close> has just truncated.
\<close>

datatype node = RegFile string | Directory

type_synonym hostfs = "(string \<times> node) list"

datatype osFile = OsFile (fname: string) (writable: bool)

definition filepath_Dir :: "host \<Rightarrow> string \<Rightarrow> string" where
  "filepath_Dir h p =
     (case h of
        Unix \<Rightarrow> filepath_Clean Unix (rev (dropWhile (\<lambda>c. \<not> isSlash c) (rev p)))
      | Windows clean join dir \<Rightarrow> dir p)"

definition os_Open :: "string \<Rightarrow> hostfs \<Rightarrow> (error + osFile) \<times> hostfs" where
  "os_Open p fs =
     (case map_of fs p of
        None \<Rightarrow> (Inl ENOENT, fs)
      | Some n \<Rightarrow> (Inr (OsFile p False), fs))"

text \<open>\<open>os.Create\<close>: open for writing, create if missing, truncate.\<close>

definition os_Create :: "host \<Rightarrow> string \<Rightarrow> hostfs \<Rightarrow> (error + osFile) \<times> hostfs" where
  "os_Create h p fs =
     (case map_of fs p of
        Some Directory \<Rightarrow> (Inl EISDIR, fs)
      | Some (RegFile c) \<Rightarrow> (Inr (OsFile p True), AList.update p (RegFile []) fs)
      | None \<Rightarrow>
          (case map_of fs (filepath_Dir h p) of
             Some Directory \<Rightarrow> (Inr (OsFile p True), AList.update p (RegFile []) fs)
           | Some (RegFile c) \<Rightarrow> (Inl ENOTDIR, fs)
           | None \<Rightarrow> (Inl ENOENT, fs)))"

definition os_Mkdir :: "host \<Rightarrow> string \<Rightarrow> hostfs \<Rightarrow> error option \<times> hostfs" where
  "os_Mkdir h p fs =
     (case map_of fs p of
        Some n \<Rightarrow> (Some EEXIST, fs)
      | None \<Rightarrow>
          (case map_of fs (filepath_Dir h p) of
             Some Directory \<Rightarrow> (None, AList.update p Directory fs)
           | Some (RegFile c) \<Rightarrow> (Some ENOTDIR, fs)
           | None \<Rightarrow> (Some ENOENT, fs)))"

text \<open>
  The end of \<open>os.MkdirAll\<close>: \<open>Mkdir\<close> on the path itself, an error forgiven when the path is
  a directory after all.
\<close>

definition mkdirLast :: "host \<Rightarrow> string \<Rightarrow> hostfs \<Rightarrow> error option \<times> hostfs" where
  "mkdirLast h p fs =
     (case os_Mkdir h p fs of
        (None, fs') \<Rightarrow> (None, fs')
      | (Some err, fs') \<Rightarrow>
          (case map_of fs' p of
             Some Directory \<Rightarrow> (None, fs')
           | _ \<Rightarrow> (Some err, fs')))"

text \<open>
  \<open>os.MkdirAll\<close>: nothing to do for a directory, an error for a file; else the parent
  (the path up to the separator before its last element, when there is one past the first
  byte) is made first.
\<close>

definition parentPrefix :: "host \<Rightarrow> string \<Rightarrow> string" where
  "parentPrefix h p =
     rev (dropWhile (\<lambda>c. \<not> IsPathSeparator h c) (dropWhile (IsPathSeparator h) (rev p)))"

function os_MkdirAll :: "host \<Rightarrow> string \<Rightarrow> hostfs \<Rightarrow> error option \<times> hostfs" where
  "os_MkdirAll h p fs =
     (case map_of fs p of
        Some Directory \<Rightarrow> (None, fs)
      | Some (RegFile c) \<Rightarrow> (Some ENOTDIR, fs)
      | None \<Rightarrow>
          (if 1 < length (parentPrefix h p) then
             (case os_MkdirAll h (butlast (parentPrefix h p)) fs of
                (Some err, fs') \<Rightarrow> (Some err, fs')
              | (None, fs') \<Rightarrow> mkdirLast h p fs')
           else mkdirLast h p fs))"
  by pat_completeness auto
termination
proof (relation "measure (\<lambda>(h, p, fs). length p)")
  show "wf (measure (\<lambda>(h, p, fs). length p))" by simp
next
  fix h :: host and p :: string and fs :: hostfs
  assume "1 < length (parentPrefix h p)"
  moreover have "length (parentPrefix h p) \<le> length p"
    unfolding parentPrefix_def
    by (metis length_dropWhile_le length_rev order_trans)
  ultimately show "((h, butlast (parentPrefix h p), fs), (h, p, fs)) \<in> measure (\<lambda>(h, p, fs). length p)"
    by simp
qed

text \<open>
  The paths \<open>os.MkdirAll\<close> finds missing on its way up from a path: the path itself and
  its parents, up to the first one that exists.
\<close>

function missingChain :: "host \<Rightarrow> string \<Rightarrow> hostfs \<Rightarrow> string list" where
  "missingChain h p fs =
     (case map_of fs p of
        Some n \<Rightarrow> []
      | None \<Rightarrow>
          p # (if 1 < length (parentPrefix h p)
               then missingChain h (butlast (parentPrefix h p)) fs else []))"
  by pat_completeness auto
termination
proof (relation "measure (\<lambda>(h, p, fs). length p)")
  show "wf (measure (\<lambda>(h, p, fs). length p))" by simp
next
  fix h :: host and p :: string and fs :: hostfs
  assume "1 < length (parentPrefix h p)"
  moreover have "length (parentPrefix h p) \<le> length p"
    unfolding parentPrefix_def
    by (metis length_dropWhile_le length_rev order_trans)
  ultimately show "((h, butlast (parentPrefix h p), fs), (h, p, fs)) \<in> measure (\<lambda>(h, p, fs). length p)"
    by simp
qed

text \<open>\<open>os.Remove\<close>: a file, or a directory without entries.\<close>

definition os_Remove :: "host \<Rightarrow> string \<Rightarrow> hostfs \<Rightarrow> error option \<times> hostfs" where
  "os_Remove h p fs =
     (case map_of fs p of
        None \<Rightarrow> (Some ENOENT, fs)
      | Some (RegFile c) \<Rightarrow> (None, AList.delete p fs)
      | Some Directory \<Rightarrow>
          (if list_ex (\<lambda>(q, n). q \<noteq> p \<and> filepath_Dir h q = p) fs then (Some ENOTEMPTY, fs)
           else (None, AList.delete p fs)))"

definition os_Stat :: "osFile \<Rightarrow> hostfs \<Rightarrow> (error + FileInfo) \<times> hostfs" where
  "os_Stat f fs =
     (case map_of fs (fname f) of
        None \<Rightarrow> (Inl ENOENT, fs)
      | Some n \<Rightarrow> (Inr \<lparr>IsDir = (n = Directory), ModTime = 0\<rparr>, fs))"

definition os_Write :: "osFile \<Rightarrow> string \<Rightarrow> hostfs \<Rightarrow> error option \<times> hostfs" where
  "os_Write f p fs =
     (if writable f then
        (case map_of fs (fname f) of
           Some (RegFile c) \<Rightarrow> (None, AList.update (fname f) (RegFile (c @ p)) fs)
         | _ \<Rightarrow> (Some EBADF, fs))
      else (Some EBADF, fs))"

text \<open>Seeking and reading a directory handle is host-dependent; the model reports an error.\<close>

definition os_Seek :: "osFile \<Rightarrow> hostfs \<Rightarrow> error + nat" where
  "os_Seek f fs =
     (case map_of fs (fname f) of
        Some (RegFile c) \<Rightarrow> Inr (length c)
      | Some Directory \<Rightarrow> Inl EISDIR
      | None \<Rightarrow> Inl ENOENT)"

definition os_Read :: "osFile \<Rightarrow> hostfs \<Rightarrow> string" where
  "os_Read f fs = (case map_of fs (fname f) of Some (RegFile c) \<Rightarrow> c | _ \<Rightarrow> [])"

definition os_Close :: "osFile \<Rightarrow> hostfs \<Rightarrow> error option \<times> hostfs" where
  "os_Close f fs = (None, fs)"

section \<open>The local directory backend (type Dir)\<close>

definition Dir_Open :: "host \<Rightarrow> string \<Rightarrow> string \<Rightarrow> hostfs \<Rightarrow> (error + osFile) \<times> hostfs" where
  "Dir_Open h d name fs =
     (case sanitizePath h d name of
        Inl err \<Rightarrow> (Inl err, fs)
      | Inr p \<Rightarrow> os_Open p fs)"

definition Dir_Create :: "host \<Rightarrow> string \<Rightarrow> string \<Rightarrow> hostfs \<Rightarrow> (error + osFile) \<times> hostfs" where
  "Dir_Create h d name fs =
     (case sanitizePath h d name of
        Inl err \<Rightarrow> (Inl err, fs)
      | Inr p \<Rightarrow> os_Create h p fs)"

definition Dir_Mkdir :: "host \<Rightarrow> string \<Rightarrow> string \<Rightarrow> hostfs \<Rightarrow> error option \<times> hostfs" where
  "Dir_Mkdir h d name fs =
     (case sanitizePath h d name of
        Inl err \<Rightarrow> (Some err, fs)
      | Inr p \<Rightarrow> os_MkdirAll h p fs)"

definition Dir_Remove :: "host \<Rightarrow> string \<Rightarrow> string \<Rightarrow> hostfs \<Rightarrow> error option \<times> hostfs" where
  "Dir_Remove h d name fs =
     (case sanitizePath h d name of
        Inl err \<Rightarrow> (Some err, fs)
      | Inr p \<Rightarrow> os_Remove h p fs)"

definition Dir :: "host \<Rightarrow> string \<Rightarrow> (hostfs, osFile) FileSystem" where
  "Dir h d =
     \<lparr>Open = Dir_Open h d, Create = Dir_Create h d, Mkdir = Dir_Mkdir h d,
      Remove = Dir_Remove h d, Stat = os_Stat, Write = os_Write, Seek = os_Seek,
      Read = os_Read, Close = os_Close\<rparr>"

text \<open>\<open>NewServer\<close>: the local directory backend behind a prefix.\<close>

definition NewServer :: "host \<Rightarrow> string \<Rightarrow> string \<Rightarrow> bool \<Rightarrow> (hostfs, osFile) Server" where
  "NewServer h dir pre listDir =
     \<lparr>TrimPrefix = pre, ReadOnly = False, Listings = listDir, Fs = Dir h dir\<rparr>"

section \<open>A server and a host file system to run the handlers on\<close>

definition request :: "string \<Rightarrow> string \<Rightarrow> string list \<Rightarrow> error option \<Rightarrow> Request" where
  "request m p chunks e =
     \<lparr>Method = m, URL = \<lparr>Path = p\<rparr>, RequestURI = p, Body = chunks, BodyErr = e\<rparr>"

definition davServer :: "(hostfs, osFile) Server" where
  "davServer = NewServer Unix ''/srv/dav'' ''/dav'' False"

definition davFiles :: hostfs where
  "davFiles =
     [(''/'', Directory), (''/srv'', Directory), (''/srv/dav'', Directory),
      (''/srv/dav/docs'', Directory), (''/srv/dav/docs/a.txt'', RegFile ''hello'')]"

text \<open>
  The same server read-only, and on a backend that refuses every \<open>Remove\<close> and every
  \<open>Stat\<close>.
\<close>

definition readOnlyServer :: "(hostfs, osFile) Server" where
  "readOnlyServer = davServer\<lparr>ReadOnly := True\<rparr>"

definition deniedServer :: "(hostfs, osFile) Server" where
  "deniedServer =
     davServer\<lparr>Fs := (Dir Unix ''/srv/dav'')
       \<lparr>Remove := (\<lambda>name fs. (Some EACCES, fs)), Stat := (\<lambda>f fs. (Inl EACCES, fs))\<rparr>\<rparr>"

section \<open>Path sanitisation stays inside the backend root\<close>

lemma splitOn_nonempty: "splitOn P s \<noteq> []"
  by (induction s) (auto split: list.splits)

lemma splitOn_append_sep:
  "P c \<Longrightarrow> splitOn P (xs @ c # ys) = splitOn P xs @ splitOn P ys"
  by (induction xs) (auto split: list.splits simp: splitOn_nonempty)

lemma splitOn_elems_free: "e \<in> set (splitOn P s) \<Longrightarrow> c \<in> set e \<Longrightarrow> \<not> P c"
  by (induction s arbitrary: e) (fastforce split: if_splits list.splits)+

lemma splitOn_free: "\<forall>c\<in>set e. \<not> P c \<Longrightarrow> splitOn P e = [e]"
  by (induction e) auto

lemma splitOn_joinWith:
  "es \<noteq> [] \<Longrightarrow> \<forall>e\<in>set es. \<forall>c\<in>set e. \<not> P c \<Longrightarrow> P sep \<Longrightarrow>
   splitOn P (joinWith sep es) = es"
proof (induction sep es rule: joinWith.induct)
  case (1 sep)
  then show ?case by simp
next
  case (2 sep e)
  then show ?case by (simp add: splitOn_free)
next
  case (3 sep e v va)
  then show ?case by (simp add: splitOn_append_sep splitOn_free)
qed

lemma cleanElems_append:
  "cleanElems r acc (xs @ ys) = cleanElems r (rev (cleanElems r acc xs)) ys"
  by (induction xs arbitrary: acc) simp_all

lemma cleanStep_real: "realElem e \<Longrightarrow> cleanStep r acc e = e # acc"
  by (simp add: cleanStep_def realElem_def)

lemma cleanElems_real:
  "\<forall>e\<in>set es. realElem e \<Longrightarrow> cleanElems r acc es = rev acc @ es"
  by (induction es arbitrary: acc) (simp_all add: cleanStep_real)

lemma cleanStep_rooted_real:
  "\<forall>e\<in>set acc. realElem e \<Longrightarrow> \<forall>x\<in>set (cleanStep True acc e). realElem x"
  by (cases acc) (auto simp: cleanStep_def realElem_def)

lemma cleanElems_rooted_real:
  "\<forall>e\<in>set acc. realElem e \<Longrightarrow> \<forall>e\<in>set (cleanElems True acc es). realElem e"
proof (induction es arbitrary: acc)
  case Nil
  then show ?case by simp
next
  case (Cons e es)
  show ?case using Cons.IH[OF cleanStep_rooted_real[OF Cons.prems]] by simp
qed

lemma cleanStep_subset: "set (cleanStep r acc e) \<subseteq> insert e (set acc)"
  by (cases acc) (auto simp: cleanStep_def)

lemma cleanElems_subset:
  "set (cleanElems r acc es) \<subseteq> set acc \<union> set es"
proof (induction es arbitrary: acc)
  case Nil
  then show ?case by simp
next
  case (Cons e es)
  show ?case using Cons.IH[of "cleanStep r acc e"] cleanStep_subset[of r acc e] by auto
qed

lemma accOK_cleanStep: "accOK r acc \<Longrightarrow> accOK r (cleanStep r acc e)"
  by (cases acc) (auto simp: cleanStep_def split: if_splits)

lemma accOK_dotdot: "accOK r (xs @ ''..'' # acc) \<Longrightarrow> \<not> r \<and> (\<forall>b\<in>set acc. b = ''..'')"
proof (induction xs)
  case Nil
  then show ?case by simp
next
  case (Cons a xs)
  show ?case
  proof (cases "a = ''..''")
    case True
    then show ?thesis using Cons.prems by simp
  next
    case False
    then have "accOK r (xs @ ''..'' # acc)" using Cons.prems by simp
    then show ?thesis by (rule Cons.IH)
  qed
qed

lemma accOK_elem: "accOK r (xs @ e # acc) \<Longrightarrow> e \<noteq> [] \<and> e \<noteq> ''.''"
proof (induction xs)
  case Nil
  then show ?case by simp
next
  case (Cons a xs)
  show ?case
  proof (cases "a = ''..''")
    case True
    then have "e = ''..''" using Cons.prems by simp
    then show ?thesis by simp
  next
    case False
    then have "accOK r (xs @ e # acc)" using Cons.prems by simp
    then show ?thesis by (rule Cons.IH)
  qed
qed

lemma cleanStep_keep:
  assumes "accOK r (xs @ e # acc)"
  shows "cleanStep r acc e = e # acc"
proof (cases "e = ''..''")
  case True
  with assms have "\<not> r \<and> (\<forall>b\<in>set acc. b = ''..'')" using accOK_dotdot by blast
  then show ?thesis using True by (cases acc) (auto simp: cleanStep_def)
next
  case False
  then show ?thesis using accOK_elem[OF assms] by (simp add: cleanStep_def)
qed

lemma cleanElems_id: "accOK r (rev ys @ acc) \<Longrightarrow> cleanElems r acc ys = rev acc @ ys"
proof (induction ys arbitrary: acc)
  case Nil
  then show ?case by simp
next
  case (Cons e es)
  have ok: "accOK r (rev es @ e # acc)" using Cons.prems by simp
  show ?case using cleanStep_keep[OF ok] Cons.IH[of "e # acc"] ok by simp
qed

lemma accOK_cleanElems: "accOK r acc \<Longrightarrow> accOK r (rev (cleanElems r acc es))"
proof (induction es arbitrary: acc)
  case Nil
  then show ?case by simp
next
  case (Cons e es)
  have "accOK r (cleanStep r acc e)" using Cons.prems by (rule accOK_cleanStep)
  then have "accOK r (rev (cleanElems r (cleanStep r acc e) es))" by (rule Cons.IH)
  then show ?case by (simp only: cleanElems.simps)
qed

lemma normElems_accOK: "accOK (isRooted P p) (rev (normElems P p))"
  unfolding normElems_def by (rule accOK_cleanElems) simp

lemma normElems_free: "e \<in> set (normElems P p) \<Longrightarrow> c \<in> set e \<Longrightarrow> \<not> P c"
proof -
  assume a: "e \<in> set (normElems P p)" "c \<in> set e"
  have "set (normElems P p) \<subseteq> set (splitOn P p)"
    unfolding normElems_def using cleanElems_subset[of "isRooted P p" "[]" "splitOn P p"] by simp
  then have "e \<in> set (splitOn P p)" using a by blast
  then show ?thesis using a splitOn_elems_free by blast
qed

lemma normElems_nonempty_elem: "e \<in> set (normElems P p) \<Longrightarrow> e \<noteq> []"
proof -
  assume "e \<in> set (normElems P p)"
  then have "e \<in> set (rev (normElems P p))" by simp
  then obtain xs ys where "rev (normElems P p) = xs @ e # ys" by (meson split_list)
  then show ?thesis using normElems_accOK[of P p] accOK_elem[of "isRooted P p" xs e ys] by simp
qed

lemma isRooted_joinWith:
  assumes "out \<noteq> []" "\<forall>e\<in>set out. e \<noteq> [] \<and> (\<forall>c\<in>set e. \<not> P c)"
  shows "\<not> isRooted P (joinWith sep out)"
proof -
  obtain e es where o: "out = e # es" using assms(1) by (cases out) auto
  then obtain c cs where e: "e = c # cs" using assms(2) by (cases e) auto
  have "\<not> P c" using assms(2) o e by simp
  then show ?thesis using o e by (cases es) (simp_all add: isRooted_def)
qed

lemma isRooted_cleanWith:
  assumes "P sep" "\<not> P (CHR ''.'')"
  shows "isRooted P (cleanWith P sep p) = isRooted P p"
proof (cases "p = []")
  case True
  then show ?thesis using assms by (simp add: cleanWith_def isRooted_def)
next
  case False
  show ?thesis
  proof (cases "isRooted P p")
    case True
    then show ?thesis using False assms by (simp add: cleanWith_def isRooted_def)
  next
    case nr: False
    show ?thesis
    proof (cases "normElems P p = []")
      case True
      then show ?thesis using False nr assms by (simp add: cleanWith_def isRooted_def)
    next
      case ne: False
      have "\<not> isRooted P (joinWith sep (normElems P p))"
        using isRooted_joinWith[OF ne] normElems_free[of _ P p] normElems_nonempty_elem[of _ P p]
        by blast
      then show ?thesis using False nr ne by (simp add: cleanWith_def)
    qed
  qed
qed

lemma normElems_cleanWith:
  assumes "P sep" "\<not> P (CHR ''.'')"
  shows "normElems P (cleanWith P sep p) = normElems P p"
proof -
  let ?out = "normElems P p"
  let ?r = "isRooted P p"
  have id: "cleanElems ?r [] ?out = ?out"
    using cleanElems_id[of ?r ?out "[]"] normElems_accOK[of P p] by simp
  have sp: "?out \<noteq> [] \<Longrightarrow> splitOn P (joinWith sep ?out) = ?out"
    using splitOn_joinWith[of ?out P sep] normElems_free[of _ P p] assms by blast
  have r: "isRooted P (cleanWith P sep p) = ?r" using isRooted_cleanWith[OF assms] .
  have unf: "normElems P (cleanWith P sep p) = cleanElems ?r [] (splitOn P (cleanWith P sep p))"
    by (simp add: normElems_def r)
  show ?thesis
  proof (cases "p = []")
    case True
    then show ?thesis using assms by (simp add: cleanWith_def normElems_def isRooted_def cleanStep_def)
  next
    case False
    show ?thesis
    proof (cases ?r)
      case True
      then have c: "cleanWith P sep p = sep # joinWith sep ?out" using False by (simp add: cleanWith_def)
      show ?thesis
      proof (cases "?out = []")
        case True
        then show ?thesis using c assms unf by (simp add: cleanStep_def)
      next
        case False
        then show ?thesis using c assms unf sp id by (simp add: cleanStep_def)
      qed
    next
      case nr: False
      show ?thesis
      proof (cases "?out = []")
        case True
        then have "cleanWith P sep p = ''.''" using False nr by (simp add: cleanWith_def)
        then show ?thesis using assms True unf by (simp add: cleanStep_def)
      next
        case False
        then have c: "cleanWith P sep p = joinWith sep ?out" using \<open>p \<noteq> []\<close> nr by (simp add: cleanWith_def)
        then show ?thesis using unf sp id False by simp
      qed
    qed
  qed
qed

lemma splitOn_elems_subset: "e \<in> set (splitOn P s) \<Longrightarrow> set e \<subseteq> set s"
  by (induction s arbitrary: e) (fastforce split: if_splits list.splits)+

lemma isRooted_append: "d \<noteq> [] \<Longrightarrow> isRooted P (d @ xs) = isRooted P d"
  by (cases d) (simp_all add: isRooted_def)

lemma path_Clean_rooted: "path_Clean (CHR ''/'' # name) = CHR ''/'' # joinWith (CHR ''/'') (nameElems name)"
  by (simp add: path_Clean_def cleanWith_def isRooted_def isSlash_def nameElems_def)

lemma nameElems_real: "e \<in> set (nameElems name) \<Longrightarrow> realElem e"
  using cleanElems_rooted_real[of "[]" "splitOn isSlash (CHR ''/'' # name)"]
  by (simp add: nameElems_def normElems_def isRooted_def isSlash_def)

lemma nameElems_chars: "e \<in> set (nameElems name) \<Longrightarrow> c \<in> set e \<Longrightarrow> c \<in> set name \<and> c \<noteq> CHR ''/''"
proof -
  assume a: "e \<in> set (nameElems name)" "c \<in> set e"
  have ns: "c \<noteq> CHR ''/''" using normElems_free[of e isSlash "CHR ''/'' # name" c] a
    by (auto simp: nameElems_def isSlash_def)
  have "set (nameElems name) \<subseteq> set (splitOn isSlash (CHR ''/'' # name))"
    unfolding nameElems_def normElems_def
    using cleanElems_subset[of "isRooted isSlash (CHR ''/'' # name)" "[]"] by simp
  then have "set e \<subseteq> set (CHR ''/'' # name)" using a splitOn_elems_subset by blast
  then show ?thesis using a ns by auto
qed

lemma nameElems_slashfree: "\<forall>e\<in>set (nameElems name). \<forall>c\<in>set e. \<not> isSlash c"
  using nameElems_chars[of _ name] by (auto simp: isSlash_def)

lemma normElems_joined:
  assumes "dir \<noteq> []"
  shows "normElems isSlash (dir @ CHR ''/'' # CHR ''/'' # joinWith (CHR ''/'') (nameElems name)) =
         normElems isSlash dir @ nameElems name"
proof -
  let ?s = "CHR ''/''" and ?n = "nameElems name"
  let ?r = "isRooted isSlash dir"
  have sl: "isSlash ?s" by (simp add: isSlash_def)
  have real: "\<forall>e\<in>set ?n. realElem e" using nameElems_real by blast
  have tail: "cleanElems ?r acc (splitOn isSlash (joinWith ?s ?n)) = rev acc @ ?n" for acc
  proof (cases "?n = []")
    case True
    then show ?thesis by (simp add: cleanStep_def)
  next
    case False
    then have "splitOn isSlash (joinWith ?s ?n) = ?n"
      using splitOn_joinWith[of ?n isSlash ?s] nameElems_slashfree[of name] sl by blast
    then show ?thesis using cleanElems_real[OF real] by simp
  qed
  have "splitOn isSlash (dir @ ?s # ?s # joinWith ?s ?n) =
        splitOn isSlash dir @ ([] # splitOn isSlash (joinWith ?s ?n))"
    using splitOn_append_sep[of isSlash ?s dir "?s # joinWith ?s ?n"] sl by simp
  then have "normElems isSlash (dir @ ?s # ?s # joinWith ?s ?n) =
      cleanElems ?r [] (splitOn isSlash dir @ ([] # splitOn isSlash (joinWith ?s ?n)))"
    using assms by (simp add: normElems_def isRooted_append)
  also have "\<dots> = cleanElems ?r (rev (normElems isSlash dir)) ([] # splitOn isSlash (joinWith ?s ?n))"
    by (simp add: cleanElems_append normElems_def)
  also have "\<dots> = normElems isSlash dir @ ?n" using tail by (simp add: cleanStep_def)
  finally show ?thesis .
qed

lemma sanitizePath_within:
  "within d (filepath_Join Unix [if d = [] then ''.'' else d,
     filepath_FromSlash Unix (path_Clean (CHR ''/'' # name))])"
proof -
  let ?s = "CHR ''/''" and ?n = "nameElems name"
  define dir where "dir = (if d = [] then ''.'' else d)"
  have dne: "dir \<noteq> []" by (simp add: dir_def)
  have sl: "isSlash ?s" and dot: "\<not> isSlash (CHR ''.'')" by (simp_all add: isSlash_def)
  let ?joined = "dir @ ?s # ?s # joinWith ?s ?n"
  have j: "filepath_Join Unix [dir, filepath_FromSlash Unix (path_Clean (CHR ''/'' # name))] =
           cleanWith isSlash ?s ?joined"
    using dne
    by (simp add: filepath_Join_def filepath_FromSlash_def Separator_def filepath_Clean_def
        path_Clean_rooted)
  have n: "normElems isSlash (cleanWith isSlash ?s ?joined) = normElems isSlash dir @ ?n"
    using normElems_cleanWith[of isSlash ?s, OF sl dot] normElems_joined[OF dne] by simp
  have r: "isRooted isSlash (cleanWith isSlash ?s ?joined) = isRooted isSlash dir"
    using isRooted_cleanWith[of isSlash ?s, OF sl dot] dne by (simp add: isRooted_append)
  have dd: "normElems isSlash dir = normElems isSlash d \<and> isRooted isSlash dir = isRooted isSlash d"
    using dot by (simp add: dir_def normElems_def isRooted_def cleanStep_def)
  have nodd: "''..'' \<notin> set ?n" using nameElems_real[of "''..''" name] by (auto simp: realElem_def)
  show ?thesis
    unfolding dir_def[symmetric] j within_def Let_def using n r dd nodd by simp
qed

lemma path_Clean_no_dots:
  "''.'' \<notin> set (splitOn isSlash (path_Clean (CHR ''/'' # name))) \<and>
   ''..'' \<notin> set (splitOn isSlash (path_Clean (CHR ''/'' # name)))"
proof -
  let ?n = "nameElems name"
  have real: "\<forall>e\<in>set ?n. realElem e" using nameElems_real by blast
  have free: "\<forall>e\<in>set ?n. \<forall>c\<in>set e. \<not> isSlash c" using nameElems_slashfree by blast
  have "splitOn isSlash (path_Clean (CHR ''/'' # name)) = [] # (if ?n = [] then [[]] else ?n)"
    using splitOn_joinWith[of ?n isSlash "CHR ''/''"] free
    by (auto simp: path_Clean_rooted isSlash_def)
  then show ?thesis using real by (auto simp: realElem_def)
qed

text \<open>
  Claim C1. On every host, for every backend directory and logical name, \<open>sanitizePath\<close>
  fails with \<open>ErrInvalidCharPath\<close> exactly when the name holds a null byte or the host's
  separator (where that is not the slash); otherwise it returns the cleaned rooted name,
  which has no \<open>.\<close> and no \<open>..\<close> element, joined onto the directory by the host's
  \<open>filepath.Join\<close>. On a Unix host the returned path lies within the backend directory.
  (On a Windows host containment depends on the volume-name rules of its \<open>Join\<close>, which
  are not modelled.)
\<close>

theorem sanitizePath_confined:
  "(if Separator h \<noteq> CHR ''/'' \<and> Separator h \<in> set name \<or> CHR 0x00 \<in> set name
    then sanitizePath h d name = Inl ErrInvalidCharPath
    else sanitizePath h d name =
           Inr (filepath_Join h [if d = [] then ''.'' else d,
                  filepath_FromSlash h (path_Clean (CHR ''/'' # name))]) \<and>
         ''.'' \<notin> set (splitOn isSlash (path_Clean (CHR ''/'' # name))) \<and>
         ''..'' \<notin> set (splitOn isSlash (path_Clean (CHR ''/'' # name)))) \<and>
   (CHR 0x00 \<notin> set name \<longrightarrow>
      (\<exists>p. sanitizePath Unix d name = Inr p \<and> within d p))"
proof -
  have 1: "if Separator h \<noteq> CHR ''/'' \<and> Separator h \<in> set name \<or> CHR 0x00 \<in> set name
    then sanitizePath h d name = Inl ErrInvalidCharPath
    else sanitizePath h d name =
           Inr (filepath_Join h [if d = [] then ''.'' else d,
                  filepath_FromSlash h (path_Clean (CHR ''/'' # name))]) \<and>
         ''.'' \<notin> set (splitOn isSlash (path_Clean (CHR ''/'' # name))) \<and>
         ''..'' \<notin> set (splitOn isSlash (path_Clean (CHR ''/'' # name)))"
    using path_Clean_no_dots[of name] by (simp add: sanitizePath_def Let_def)
  have 2: "\<exists>p. sanitizePath Unix d name = Inr p \<and> within d p" if "CHR 0x00 \<notin> set name"
    using that sanitizePath_within[of d name] by (simp add: sanitizePath_def Let_def Separator_def)
  show ?thesis using 1 2 by blast
qed

theorem sanitizePath_confined_witness:
  "sanitizePath Unix ''/srv/dav'' ''a/../../etc/./passwd'' = Inr ''/srv/dav/etc/passwd'' \<and>
   within ''/srv/dav'' ''/srv/dav/etc/passwd'' \<and>
   sanitizePath Unix ''/srv/dav'' [CHR ''a'', CHR 0x00, CHR ''b''] = Inl ErrInvalidCharPath"
proof -
  have e: "sanitizePath Unix ''/srv/dav'' ''a/../../etc/./passwd'' = Inr ''/srv/dav/etc/passwd''"
    by code_simp
  have c: "CHR 0x00 \<notin> set ''a/../../etc/./passwd''" by simp
  have w: "within ''/srv/dav'' ''/srv/dav/etc/passwd''"
    using sanitizePath_confined[of Unix "''a/../../etc/./passwd''" "''/srv/dav''"] c e
    by auto
  have c2: "Separator Unix \<noteq> CHR ''/'' \<and> Separator Unix \<in> set [CHR ''a'', CHR 0x00, CHR ''b''] \<or>
            CHR 0x00 \<in> set [CHR ''a'', CHR 0x00, CHR ''b'']"
    by simp
  have r: "sanitizePath Unix ''/srv/dav'' [CHR ''a'', CHR 0x00, CHR ''b''] = Inl ErrInvalidCharPath"
    using sanitizePath_confined[of Unix "[CHR ''a'', CHR 0x00, CHR ''b'']" "''/srv/dav''"] c2
    by simp
  show ?thesis using e w r by simp
qed

section \<open>The handlers on every backend\<close>

lemma Fs_spy [simp]: "Fs (spy s) = logged (Fs s)" "ReadOnly (spy s) = ReadOnly s"
  "url2path (spy s) u = url2path s u"
  by (simp_all add: spy_def url2path_def)

lemma logged_simps [simp]:
  "Open (logged B) name (fs, l) = (fst (Open B name fs), (snd (Open B name fs), l @ [Call_Open name]))"
  "Create (logged B) name (fs, l) = (fst (Create B name fs), (snd (Create B name fs), l @ [Call_Create name]))"
  "Mkdir (logged B) name (fs, l) = (fst (Mkdir B name fs), (snd (Mkdir B name fs), l @ [Call_Mkdir name]))"
  "Remove (logged B) name (fs, l) = (fst (Remove B name fs), (snd (Remove B name fs), l @ [Call_Remove name]))"
  "Stat (logged B) f (fs, l) = (fst (Stat B f fs), (snd (Stat B f fs), l @ [Call_Stat f]))"
  "Write (logged B) f p (fs, l) = (fst (Write B f p fs), (snd (Write B f p fs), l @ [Call_Write f p]))"
  "Close (logged B) f (fs, l) = (fst (Close B f fs), (snd (Close B f fs), l @ [Call_Close f]))"
  "Seek (logged B) f (fs, l) = Seek B f fs"
  "Read (logged B) f (fs, l) = Read B f fs"
  by (simp_all add: logged_def split: prod.splits)

lemma status_WriteHeader: "status w = None \<Longrightarrow> status (WriteHeader w c) = Some c"
  by (simp add: WriteHeader_def)

lemma http_Error_reply:
  "status w = None \<Longrightarrow> status (http_Error w msg c) = Some c"
  "body (http_Error w msg c) = body w @ msg @ [CHR 0x0A]"
  by (simp_all add: http_Error_def Header_Set_def WriteHeader_def Let_def)

subsection \<open>Read-only servers\<close>

text \<open>
  Claim C7. When \<open>ReadOnly\<close> is set, a PUT and a DELETE are answered 403, by both copies
  of the handlers and on every backend, and the backend's state is returned as it was
  given. Run on the recording backend, the log stays empty: no backend call is made.
\<close>

theorem readonly_forbidden:
  assumes "ReadOnly s" and "Method r = ''PUT'' \<or> Method r = ''DELETE''" and "status w = None"
  shows "ServeHTTP s w r fs = (WriteHeader w StatusForbidden, fs) \<and>
         ServeHTTP2 s w r fs = (WriteHeader w StatusForbidden, fs) \<and>
         status (WriteHeader w StatusForbidden) = Some 403 \<and>
         snd (ServeHTTP (spy s) w r (fs, [])) = (fs, []) \<and>
         snd (ServeHTTP2 (spy s) w r (fs, [])) = (fs, [])"
  using assms
  by (auto simp: ServeHTTP_def ServeHTTP2_def doPut_def doPut2_def doDelete_def
      status_WriteHeader StatusForbidden_def)

theorem readonly_forbidden_witness:
  "status (fst (ServeHTTP readOnlyServer newResponse (request ''PUT'' ''/dav/docs/a.txt'' [''x''] None) davFiles)) = Some 403 \<and>
   snd (ServeHTTP readOnlyServer newResponse (request ''PUT'' ''/dav/docs/a.txt'' [''x''] None) davFiles) = davFiles \<and>
   status (fst (ServeHTTP2 readOnlyServer newResponse (request ''DELETE'' ''/dav/docs/a.txt'' [] None) davFiles)) = Some 403 \<and>
   snd (ServeHTTP2 (spy readOnlyServer) newResponse (request ''DELETE'' ''/dav/docs/a.txt'' [] None) (davFiles, [])) = (davFiles, [])"
proof -
  have ro: "ReadOnly readOnlyServer" by code_simp
  have nr: "status newResponse = None" by code_simp
  have m1: "Method (request ''PUT'' ''/dav/docs/a.txt'' [''x''] None) = ''PUT'' \<or>
            Method (request ''PUT'' ''/dav/docs/a.txt'' [''x''] None) = ''DELETE''" by code_simp
  have m2: "Method (request ''DELETE'' ''/dav/docs/a.txt'' [] None) = ''PUT'' \<or>
            Method (request ''DELETE'' ''/dav/docs/a.txt'' [] None) = ''DELETE''" by code_simp
  show ?thesis
    using readonly_forbidden[OF ro m1 nr, of davFiles] readonly_forbidden[OF ro m2 nr, of davFiles]
    by simp
qed

lemma pathExists_spy:
  "pathExists (spy s) path (fs, l) =
     (case Open (Fs s) path fs of
        (Inl e, fs1) \<Rightarrow> (False, (fs1, l @ [Call_Open path]))
      | (Inr f, fs1) \<Rightarrow> (True, (snd (Close (Fs s) f fs1), l @ [Call_Open path, Call_Close f])))"
  by (simp add: pathExists_def split: prod.splits sum.splits)

lemma pathIsDirectory_spy:
  "pathIsDirectory (spy s) path (fs, l) =
     (case Open (Fs s) path fs of
        (Inl e, fs1) \<Rightarrow> (False, (fs1, l @ [Call_Open path]))
      | (Inr f, fs1) \<Rightarrow>
          (fst (pathIsDirectory s path fs),
           (snd (pathIsDirectory s path fs), l @ [Call_Open path, Call_Stat f, Call_Close f])))"
  by (simp add: pathIsDirectory_def split: prod.splits sum.splits)

lemma pathExists_spy_eq:
  "pathExists s path fs = (b, fs1) \<Longrightarrow>
   \<exists>l1. pathExists (spy s) path (fs, l) = (b, (fs1, l1)) \<and>
        (\<forall>c\<in>set l1. c \<in> set l \<or> \<not> mutating c)"
  by (auto simp: pathExists_spy pathExists_def split: prod.splits sum.splits)

lemma pathIsDirectory_spy_eq:
  "pathIsDirectory s path fs = (b, fs1) \<Longrightarrow>
   \<exists>l1. pathIsDirectory (spy s) path (fs, l) = (b, (fs1, l1)) \<and>
        (\<forall>c\<in>set l1. c \<in> set l \<or> \<not> mutating c)"
  by (auto simp: pathIsDirectory_spy pathIsDirectory_def split: prod.splits sum.splits)

subsection \<open>url2path\<close>

lemma takeWhile_replicate:
  "\<forall>c. P c \<longleftrightarrow> c = x \<Longrightarrow> takeWhile P xs = replicate (length (takeWhile P xs)) x"
  by (induction xs) auto

lemma trim_shape:
  assumes "\<forall>c. P c \<longleftrightarrow> c = x"
  shows "\<exists>a b. p = replicate a x @ rev (dropWhile P (rev (dropWhile P p))) @ replicate b x"
proof -
  let ?m = "dropWhile P p"
  have 1: "p = takeWhile P p @ ?m" by simp
  have "rev ?m = takeWhile P (rev ?m) @ dropWhile P (rev ?m)" by simp
  then have 2: "?m = rev (dropWhile P (rev ?m)) @ rev (takeWhile P (rev ?m))"
    by (metis rev_append rev_rev_ident)
  have 3: "rev (takeWhile P (rev ?m)) = replicate (length (takeWhile P (rev ?m))) x"
    using takeWhile_replicate[OF assms, of "rev ?m"] by (metis rev_replicate)
  have "p = replicate (length (takeWhile P p)) x @ rev (dropWhile P (rev ?m)) @
            replicate (length (takeWhile P (rev ?m))) x"
    using 1 2 3 takeWhile_replicate[OF assms, of p] by metis
  then show ?thesis by blast
qed

lemma trim_ends:
  assumes "rev (dropWhile P (rev (dropWhile P p))) \<noteq> []"
  shows "\<not> P (hd (rev (dropWhile P (rev (dropWhile P p))))) \<and>
         \<not> P (last (rev (dropWhile P (rev (dropWhile P p)))))"
proof -
  let ?m = "dropWhile P p"
  let ?k = "dropWhile P (rev ?m)"
  have kne: "?k \<noteq> []" using assms by simp
  then have "\<not> P (hd ?k)" by (rule hd_dropWhile)
  then have l: "\<not> P (last (rev ?k))" using kne by (simp add: last_rev)
  have mne: "?m \<noteq> []"
  proof
    assume e: "?m = []"
    have "?k = []" unfolding e by simp
    then show False using kne by blast
  qed
  then have hm: "\<not> P (hd ?m)" by (rule hd_dropWhile)
  have "rev ?m = takeWhile P (rev ?m) @ ?k" by simp
  then have "?m = rev ?k @ rev (takeWhile P (rev ?m))" by (metis rev_append rev_rev_ident)
  then have "hd ?m = hd (rev ?k)" using kne by (metis hd_append2 rev_is_Nil_conv)
  then show ?thesis using hm l by simp
qed

lemma strings_Trim_shape:
  "\<exists>a b. p = replicate a (CHR ''/'') @ strings_Trim p ''/'' @ replicate b (CHR ''/'')"
  unfolding strings_Trim_def by (rule trim_shape) simp

lemma strings_Trim_ends:
  "strings_Trim p ''/'' = [] \<or>
   (hd (strings_Trim p ''/'') \<noteq> CHR ''/'' \<and> last (strings_Trim p ''/'') \<noteq> CHR ''/'')"
  using trim_ends[of "\<lambda>c. c \<in> set ''/''" p] unfolding strings_Trim_def by auto

text \<open>
  With a prefix that is not empty, \<open>url2path\<close> is the resolver of the specification: the
  root for an empty path and for a path that does not start with the prefix, else the
  path without the prefix and without the slashes at its two ends.
\<close>

lemma url2path_nonempty_prefix:
  assumes "TrimPrefix s \<noteq> []"
  shows "url2path s u = url2path_spec (Path u) (TrimPrefix s)"
proof -
  have "prefix (TrimPrefix s) (Path u) \<Longrightarrow> Path u \<noteq> [] \<Longrightarrow>
        length (Path u) - length (TrimPrefix s) < length (Path u)"
    using assms by (cases "TrimPrefix s"; cases "Path u") auto
  then show ?thesis
    by (auto simp: url2path_def url2path_spec_def strings_TrimPrefix_def Let_def)
qed

text \<open>
  With the empty prefix, which \<open>Handler\<close> sets, the length test never holds and every path
  resolves to the root.
\<close>

lemma url2path_Handler: "url2path (Handler B) u = ''/''"
  by (simp add: url2path_def Handler_def strings_TrimPrefix_def)

text \<open>
  Claim C3. \<open>url2path\<close> is to return the root for an empty path and for a path that does
  not start with the prefix, and otherwise the path with the prefix stripped and the
  slashes at its ends trimmed. On the server \<open>Handler\<close> builds, whose prefix is empty, the
  path \<open>/a.txt\<close> starts with the prefix and the claim's answer is \<open>a.txt\<close>; \<open>url2path\<close>
  returns the root, because its test \<open>len(p) < len(u.Path)\<close> misses the empty prefix.
\<close>

theorem url2path_empty_prefix:
  "TrimPrefix (Handler (Dir Unix ''/srv/dav'')) = [] \<and>
   prefix (TrimPrefix (Handler (Dir Unix ''/srv/dav''))) ''/a.txt'' \<and>
   url2path_spec ''/a.txt'' (TrimPrefix (Handler (Dir Unix ''/srv/dav''))) = ''a.txt'' \<and>
   url2path (Handler (Dir Unix ''/srv/dav'')) \<lparr>Path = ''/a.txt''\<rparr> = ''/''"
  by (simp add: url2path_def url2path_spec_def Handler_def strings_TrimPrefix_def
      strings_Trim_def)

subsection \<open>DELETE\<close>

text \<open>
  Claim C8. On a server that is not read-only, a DELETE whose backend open fails answers
  404 and leaves the backend as the failed open left it. When the path opens and is not
  found to be a directory, \<open>Remove\<close> is called on it: the backend is left as \<open>Remove\<close> left
  it, and the answer is 500 when \<open>Remove\<close> failed and 204 when it succeeded.
\<close>

theorem doDelete_status:
  assumes "\<not> ReadOnly s" and "status w = None"
  shows
    "(\<forall>err fs1. Open (Fs s) (url2path s (URL r)) fs = (Inl err, fs1) \<longrightarrow>
        status (fst (doDelete s w r fs)) = Some 404 \<and> snd (doDelete s w r fs) = fs1 \<and>
        snd (snd (doDelete (spy s) w r (fs, []))) = [Call_Open (url2path s (URL r))]) \<and>
     (\<forall>fs1 fs2 res fs3.
        pathExists s (url2path s (URL r)) fs = (True, fs1) \<longrightarrow>
        pathIsDirectory s (url2path s (URL r)) fs1 = (False, fs2) \<longrightarrow>
        Remove (Fs s) (url2path s (URL r)) fs2 = (res, fs3) \<longrightarrow>
        status (fst (doDelete s w r fs)) = Some (if res = None then 204 else 500) \<and>
        snd (doDelete s w r fs) = fs3 \<and>
        last (snd (snd (doDelete (spy s) w r (fs, [])))) = Call_Remove (url2path s (URL r)))"
proof (intro conjI allI impI)
  fix err fs1
  assume o: "Open (Fs s) (url2path s (URL r)) fs = (Inl err, fs1)"
  show "status (fst (doDelete s w r fs)) = Some 404"
    using assms o
    by (simp add: doDelete_def deleteResource_def pathExists_def status_WriteHeader
        StatusNotFound_def)
  show "snd (doDelete s w r fs) = fs1"
    using assms o by (simp add: doDelete_def deleteResource_def pathExists_def)
  show "snd (snd (doDelete (spy s) w r (fs, []))) = [Call_Open (url2path s (URL r))]"
    using assms o by (simp add: doDelete_def deleteResource_def pathExists_def)
next
  fix fs1 fs2 res fs3
  let ?p = "url2path s (URL r)"
  assume e: "pathExists s ?p fs = (True, fs1)"
    and d: "pathIsDirectory s ?p fs1 = (False, fs2)"
    and rm: "Remove (Fs s) ?p fs2 = (res, fs3)"
  show "status (fst (doDelete s w r fs)) = Some (if res = None then 204 else 500)"
    using assms e d rm
    by (cases res)
      (simp_all add: doDelete_def deleteResource_def status_WriteHeader
        StatusNoContent_def StatusInternalServerError_def)
  show "snd (doDelete s w r fs) = fs3"
    using assms e d rm by (cases res) (simp_all add: doDelete_def deleteResource_def)
  obtain l1 where e': "pathExists (spy s) ?p (fs, []) = (True, (fs1, l1))"
    using pathExists_spy_eq[OF e, of "[]"] by blast
  obtain l2 where d': "pathIsDirectory (spy s) ?p (fs1, l1) = (False, (fs2, l2))"
    using pathIsDirectory_spy_eq[OF d, of l1] by blast
  show "last (snd (snd (doDelete (spy s) w r (fs, [])))) = Call_Remove ?p"
    using assms e' d' rm by (cases res) (simp_all add: doDelete_def deleteResource_def)
qed

theorem doDelete_status_witness:
  "status (fst (doDelete davServer newResponse (request ''DELETE'' ''/dav/nope'' [] None) davFiles)) = Some 404 \<and>
   snd (doDelete davServer newResponse (request ''DELETE'' ''/dav/nope'' [] None) davFiles) = davFiles \<and>
   status (fst (doDelete davServer newResponse (request ''DELETE'' ''/dav/docs/a.txt'' [] None) davFiles)) = Some 204 \<and>
   snd (doDelete davServer newResponse (request ''DELETE'' ''/dav/docs/a.txt'' [] None) davFiles) =
     [(''/'', Directory), (''/srv'', Directory), (''/srv/dav'', Directory), (''/srv/dav/docs'', Directory)] \<and>
   status (fst (doDelete deniedServer newResponse (request ''DELETE'' ''/dav/docs/a.txt'' [] None) davFiles)) = Some 500 \<and>
   snd (doDelete deniedServer newResponse (request ''DELETE'' ''/dav/docs/a.txt'' [] None) davFiles) = davFiles"
proof -
  let ?missing = "request ''DELETE'' ''/dav/nope'' [] None"
  let ?file = "request ''DELETE'' ''/dav/docs/a.txt'' [] None"
  let ?left = "[(''/'', Directory), (''/srv'', Directory), (''/srv/dav'', Directory), (''/srv/dav/docs'', Directory)]"
  have ro: "\<not> ReadOnly davServer" by code_simp
  have ro': "\<not> ReadOnly deniedServer" by code_simp
  have nr: "status newResponse = None" by code_simp
  have o: "Open (Fs davServer) (url2path davServer (URL ?missing)) davFiles = (Inl ENOENT, davFiles)"
    by code_simp
  have a: "status (fst (doDelete davServer newResponse ?missing davFiles)) = Some 404 \<and>
           snd (doDelete davServer newResponse ?missing davFiles) = davFiles"
    using doDelete_status[OF ro nr, of ?missing davFiles] o by blast
  have e: "pathExists davServer (url2path davServer (URL ?file)) davFiles = (True, davFiles)"
    by code_simp
  have d: "pathIsDirectory davServer (url2path davServer (URL ?file)) davFiles = (False, davFiles)"
    by code_simp
  have rm: "Remove (Fs davServer) (url2path davServer (URL ?file)) davFiles = (None, ?left)"
    by code_simp
  have b: "status (fst (doDelete davServer newResponse ?file davFiles)) = Some (if (None :: error option) = None then 204 else 500) \<and>
           snd (doDelete davServer newResponse ?file davFiles) = ?left"
    using doDelete_status[OF ro nr, of ?file davFiles] e d rm by blast
  have e': "pathExists deniedServer (url2path deniedServer (URL ?file)) davFiles = (True, davFiles)"
    by code_simp
  have d': "pathIsDirectory deniedServer (url2path deniedServer (URL ?file)) davFiles = (False, davFiles)"
    by code_simp
  have rm': "Remove (Fs deniedServer) (url2path deniedServer (URL ?file)) davFiles = (Some EACCES, davFiles)"
    by code_simp
  have c: "status (fst (doDelete deniedServer newResponse ?file davFiles)) = Some (if Some EACCES = None then 204 else 500) \<and>
           snd (doDelete deniedServer newResponse ?file davFiles) = davFiles"
    using doDelete_status[OF ro' nr, of ?file davFiles] e' d' rm' by blast
  show ?thesis using a b c by simp
qed

subsection \<open>GET and HEAD\<close>

text \<open>
  Claim C9. \<open>serveResource\<close> serves GET (\<open>serveContent\<close> true) and HEAD (false). When the
  backend open fails, or the stat of the opened handle fails, the answer is 404 and the
  body is the request URI (and the newline \<open>http.Error\<close> adds). The calls made are the
  open alone when it fails; otherwise the open, the stat and one close of the opened
  handle, the close last, whether the stat failed or content was served.
\<close>

theorem serveResource_not_found_and_release:
  assumes "status w = None" and "body w = []"
  shows
    "(\<forall>err fs1. Open (Fs s) (url2path s (URL r)) fs = (Inl err, fs1) \<longrightarrow>
        status (fst (serveResource s w r serveContent fs)) = Some 404 \<and>
        body (fst (serveResource s w r serveContent fs)) = RequestURI r @ [CHR 0x0A] \<and>
        snd (snd (serveResource (spy s) w r serveContent (fs, []))) =
          [Call_Open (url2path s (URL r))]) \<and>
     (\<forall>f fs1. Open (Fs s) (url2path s (URL r)) fs = (Inr f, fs1) \<longrightarrow>
        snd (snd (serveResource (spy s) w r serveContent (fs, []))) =
          [Call_Open (url2path s (URL r)), Call_Stat f, Call_Close f] \<and>
        snd (serveResource s w r serveContent fs) =
          snd (Close (Fs s) f (snd (Stat (Fs s) f fs1))) \<and>
        (\<forall>err fs2. Stat (Fs s) f fs1 = (Inl err, fs2) \<longrightarrow>
           status (fst (serveResource s w r serveContent fs)) = Some 404 \<and>
           body (fst (serveResource s w r serveContent fs)) = RequestURI r @ [CHR 0x0A]))"
proof (intro conjI allI impI)
  fix err fs1
  assume o: "Open (Fs s) (url2path s (URL r)) fs = (Inl err, fs1)"
  show "status (fst (serveResource s w r serveContent fs)) = Some 404"
    using assms o by (simp add: serveResource_def http_Error_reply StatusNotFound_def)
  show "body (fst (serveResource s w r serveContent fs)) = RequestURI r @ [CHR 0x0A]"
    using assms o by (simp add: serveResource_def http_Error_reply)
  show "snd (snd (serveResource (spy s) w r serveContent (fs, []))) =
          [Call_Open (url2path s (URL r))]"
    using o by (simp add: serveResource_def)
next
  fix f fs1
  assume o: "Open (Fs s) (url2path s (URL r)) fs = (Inr f, fs1)"
  show "snd (snd (serveResource (spy s) w r serveContent (fs, []))) =
          [Call_Open (url2path s (URL r)), Call_Stat f, Call_Close f]"
    using o by (simp add: serveResource_def Let_def split: prod.splits sum.splits)
  show "snd (serveResource s w r serveContent fs) =
          snd (Close (Fs s) f (snd (Stat (Fs s) f fs1)))"
    using o by (simp add: serveResource_def Let_def split: prod.splits sum.splits)
next
  fix f fs1 err fs2
  assume o: "Open (Fs s) (url2path s (URL r)) fs = (Inr f, fs1)"
    and st: "Stat (Fs s) f fs1 = (Inl err, fs2)"
  show "status (fst (serveResource s w r serveContent fs)) = Some 404"
    using assms o st by (simp add: serveResource_def http_Error_reply StatusNotFound_def)
  show "body (fst (serveResource s w r serveContent fs)) = RequestURI r @ [CHR 0x0A]"
    using assms o st by (simp add: serveResource_def http_Error_reply)
qed

theorem serveResource_not_found_and_release_witness:
  "status (fst (serveResource davServer newResponse (request ''GET'' ''/dav/nope'' [] None) True davFiles)) = Some 404 \<and>
   body (fst (serveResource davServer newResponse (request ''GET'' ''/dav/nope'' [] None) True davFiles)) = ''/dav/nope'' @ [CHR 0x0A] \<and>
   snd (snd (serveResource (spy davServer) newResponse (request ''GET'' ''/dav/nope'' [] None) True (davFiles, []))) =
     [Call_Open ''nope''] \<and>
   snd (snd (serveResource (spy davServer) newResponse (request ''HEAD'' ''/dav/docs/a.txt'' [] None) False (davFiles, []))) =
     [Call_Open ''docs/a.txt'', Call_Stat (OsFile ''/srv/dav/docs/a.txt'' False),
      Call_Close (OsFile ''/srv/dav/docs/a.txt'' False)] \<and>
   status (fst (serveResource deniedServer newResponse (request ''GET'' ''/dav/docs/a.txt'' [] None) True davFiles)) = Some 404 \<and>
   snd (snd (serveResource (spy deniedServer) newResponse (request ''GET'' ''/dav/docs/a.txt'' [] None) True (davFiles, []))) =
     [Call_Open ''docs/a.txt'', Call_Stat (OsFile ''/srv/dav/docs/a.txt'' False),
      Call_Close (OsFile ''/srv/dav/docs/a.txt'' False)]"
proof -
  let ?missing = "request ''GET'' ''/dav/nope'' [] None"
  let ?head = "request ''HEAD'' ''/dav/docs/a.txt'' [] None"
  let ?get = "request ''GET'' ''/dav/docs/a.txt'' [] None"
  let ?f = "OsFile ''/srv/dav/docs/a.txt'' False"
  have nr: "status newResponse = None" by code_simp
  have nb: "body newResponse = []" by code_simp
  have u1: "url2path davServer (URL ?missing) = ''nope''" by code_simp
  have u2: "url2path davServer (URL ?head) = ''docs/a.txt''" by code_simp
  have u3: "url2path deniedServer (URL ?get) = ''docs/a.txt''" by code_simp
  have uri: "RequestURI ?missing = ''/dav/nope''" by code_simp
  have o1: "Open (Fs davServer) (url2path davServer (URL ?missing)) davFiles = (Inl ENOENT, davFiles)"
    by code_simp
  have a: "status (fst (serveResource davServer newResponse ?missing True davFiles)) = Some 404 \<and>
           body (fst (serveResource davServer newResponse ?missing True davFiles)) = RequestURI ?missing @ [CHR 0x0A] \<and>
           snd (snd (serveResource (spy davServer) newResponse ?missing True (davFiles, []))) =
             [Call_Open (url2path davServer (URL ?missing))]"
    using serveResource_not_found_and_release[OF nr nb, of davServer ?missing davFiles True] o1
    by blast
  have o2: "Open (Fs davServer) (url2path davServer (URL ?head)) davFiles = (Inr ?f, davFiles)"
    by code_simp
  have b: "snd (snd (serveResource (spy davServer) newResponse ?head False (davFiles, []))) =
             [Call_Open (url2path davServer (URL ?head)), Call_Stat ?f, Call_Close ?f]"
    using serveResource_not_found_and_release[OF nr nb, of davServer ?head davFiles False] o2
    by blast
  have o3: "Open (Fs deniedServer) (url2path deniedServer (URL ?get)) davFiles = (Inr ?f, davFiles)"
    by code_simp
  have st: "Stat (Fs deniedServer) ?f davFiles = (Inl EACCES, davFiles)" by code_simp
  have c: "status (fst (serveResource deniedServer newResponse ?get True davFiles)) = Some 404 \<and>
           snd (snd (serveResource (spy deniedServer) newResponse ?get True (davFiles, []))) =
             [Call_Open (url2path deniedServer (URL ?get)), Call_Stat ?f, Call_Close ?f]"
    using serveResource_not_found_and_release[OF nr nb, of deniedServer ?get davFiles True] o3 st
    by blast
  show ?thesis using a b c unfolding u1 u2 u3 uri by simp
qed

subsection \<open>Directories under DELETE and PUT\<close>

lemma Dir_simps [simp]:
  "Open (Dir h d) = Dir_Open h d" "Create (Dir h d) = Dir_Create h d"
  "Mkdir (Dir h d) = Dir_Mkdir h d" "Remove (Dir h d) = Dir_Remove h d"
  "Stat (Dir h d) = os_Stat" "Write (Dir h d) = os_Write" "Seek (Dir h d) = os_Seek"
  "Read (Dir h d) = os_Read" "Close (Dir h d) = os_Close"
  by (simp_all add: Dir_def)

lemma Dir_Open_state: "snd (Dir_Open h d name fs) = fs"
  by (simp add: Dir_Open_def os_Open_def split: sum.splits option.splits)

lemma os_Stat_state: "snd (os_Stat f fs) = fs"
  by (simp add: os_Stat_def split: option.splits)

lemma Dir_pathExists_state: "Fs s = Dir h d \<Longrightarrow> snd (pathExists s path fs) = fs"
  using Dir_Open_state[of h d path fs]
  by (auto simp: pathExists_def os_Close_def split: prod.splits sum.splits)

lemma Dir_pathIsDirectory_state: "Fs s = Dir h d \<Longrightarrow> snd (pathIsDirectory s path fs) = fs"
proof -
  assume D: "Fs s = Dir h d"
  obtain res where o: "Dir_Open h d path fs = (res, fs)"
    using Dir_Open_state[of h d path fs] by (metis prod.collapse)
  show ?thesis
  proof (cases res)
    case (Inl e)
    then show ?thesis using D o by (simp add: pathIsDirectory_def)
  next
    case (Inr f)
    obtain st where "os_Stat f fs = (st, fs)" using os_Stat_state[of f fs] by (metis prod.collapse)
    then show ?thesis using D o Inr by (cases st) (simp_all add: pathIsDirectory_def os_Close_def)
  qed
qed

text \<open>
  Claim C5. On a server that is not read-only, when the handler's existence check and
  its directory check both say yes, DELETE answers 204 and calls nothing on the backend
  but the opens, the stat and the closes of those two checks: no \<open>Remove\<close>, no \<open>Create\<close>,
  no \<open>Mkdir\<close>, no \<open>Write\<close>. With the local directory backend the host file system after the
  request is the one before it.
\<close>

theorem doDelete_directory_untouched:
  assumes "\<not> ReadOnly s" and "status w = None"
    and "pathExists s (url2path s (URL r)) fs = (True, fs1)"
    and "pathIsDirectory s (url2path s (URL r)) fs1 = (True, fs2)"
  shows "status (fst (doDelete s w r fs)) = Some 204 \<and>
         snd (doDelete s w r fs) = fs2 \<and>
         filter mutating (snd (snd (doDelete (spy s) w r (fs, [])))) = [] \<and>
         (\<forall>h d. Fs s = Dir h d \<longrightarrow> snd (doDelete s w r fs) = fs)"
proof -
  let ?p = "url2path s (URL r)"
  have 1: "status (fst (doDelete s w r fs)) = Some 204"
    using assms by (simp add: doDelete_def deleteResource_def status_WriteHeader StatusNoContent_def)
  have 2: "snd (doDelete s w r fs) = fs2"
    using assms by (simp add: doDelete_def deleteResource_def)
  obtain l1 where e': "pathExists (spy s) ?p (fs, []) = (True, (fs1, l1))"
    and m1: "\<forall>c\<in>set l1. \<not> mutating c"
    using pathExists_spy_eq[OF assms(3), of "[]"] by auto
  obtain l2 where d': "pathIsDirectory (spy s) ?p (fs1, l1) = (True, (fs2, l2))"
    and m2: "\<forall>c\<in>set l2. c \<in> set l1 \<or> \<not> mutating c"
    using pathIsDirectory_spy_eq[OF assms(4), of l1] by auto
  have "snd (snd (doDelete (spy s) w r (fs, []))) = l2"
    using assms(1) e' d' by (simp add: doDelete_def deleteResource_def)
  moreover have "filter mutating l2 = []" using m1 m2 by (auto simp: filter_empty_conv)
  ultimately have 3: "filter mutating (snd (snd (doDelete (spy s) w r (fs, [])))) = []" by simp
  have 4: "\<forall>h d. Fs s = Dir h d \<longrightarrow> snd (doDelete s w r fs) = fs"
  proof (intro allI impI)
    fix h d assume D: "Fs s = Dir h d"
    have "fs1 = fs" using Dir_pathExists_state[OF D, of ?p fs] assms(3) by simp
    moreover have "fs2 = fs1" using Dir_pathIsDirectory_state[OF D, of ?p fs1] assms(4) by simp
    ultimately show "snd (doDelete s w r fs) = fs" using 2 by simp
  qed
  show ?thesis using 1 2 3 4 by blast
qed

theorem doDelete_directory_untouched_witness:
  "status (fst (doDelete davServer newResponse (request ''DELETE'' ''/dav/docs'' [] None) davFiles)) = Some 204 \<and>
   snd (doDelete davServer newResponse (request ''DELETE'' ''/dav/docs'' [] None) davFiles) = davFiles \<and>
   filter mutating (snd (snd (doDelete (spy davServer) newResponse (request ''DELETE'' ''/dav/docs'' [] None) (davFiles, [])))) = []"
proof -
  let ?r = "request ''DELETE'' ''/dav/docs'' [] None"
  have ro: "\<not> ReadOnly davServer" by code_simp
  have nr: "status newResponse = None" by code_simp
  have e: "pathExists davServer (url2path davServer (URL ?r)) davFiles = (True, davFiles)"
    by code_simp
  have d: "pathIsDirectory davServer (url2path davServer (URL ?r)) davFiles = (True, davFiles)"
    by code_simp
  show ?thesis using doDelete_directory_untouched[OF ro nr e d] by simp
qed

text \<open>
  The second \<open>doPut\<close> (lines 472 to 525) makes the directory check. On a server that is
  not read-only, when the check says yes, PUT answers 405 and calls nothing on the
  backend but the open, the stat and the close of that check: no \<open>Create\<close>, no \<open>Write\<close>, no
  \<open>Mkdir\<close>, no \<open>Remove\<close>. With the local directory backend the host file system after the
  request is the one before it.
\<close>

theorem doPut2_directory_untouched:
  assumes "\<not> ReadOnly s" and "status w = None"
    and "pathIsDirectory s (url2path s (URL r)) fs = (True, fs1)"
  shows "status (fst (doPut2 s w r fs)) = Some 405 \<and>
         snd (doPut2 s w r fs) = fs1 \<and>
         filter mutating (snd (snd (doPut2 (spy s) w r (fs, [])))) = [] \<and>
         (\<forall>h d. Fs s = Dir h d \<longrightarrow> snd (doPut2 s w r fs) = fs)"
proof -
  let ?p = "url2path s (URL r)"
  have 1: "status (fst (doPut2 s w r fs)) = Some 405"
    using assms by (simp add: doPut2_def status_WriteHeader StatusMethodNotAllowed_def)
  have 2: "snd (doPut2 s w r fs) = fs1"
    using assms by (simp add: doPut2_def)
  obtain l1 where d': "pathIsDirectory (spy s) ?p (fs, []) = (True, (fs1, l1))"
    and m1: "\<forall>c\<in>set l1. \<not> mutating c"
    using pathIsDirectory_spy_eq[OF assms(3), of "[]"] by auto
  have "snd (snd (doPut2 (spy s) w r (fs, []))) = l1"
    using assms(1) d' by (simp add: doPut2_def)
  moreover have "filter mutating l1 = []" using m1 by (auto simp: filter_empty_conv)
  ultimately have 3: "filter mutating (snd (snd (doPut2 (spy s) w r (fs, [])))) = []" by simp
  have 4: "\<forall>h d. Fs s = Dir h d \<longrightarrow> snd (doPut2 s w r fs) = fs"
  proof (intro allI impI)
    fix h d assume D: "Fs s = Dir h d"
    have "fs1 = fs" using Dir_pathIsDirectory_state[OF D, of ?p fs] assms(3) by simp
    then show "snd (doPut2 s w r fs) = fs" using 2 by simp
  qed
  show ?thesis using 1 2 3 4 by blast
qed

theorem doPut2_directory_untouched_witness:
  "status (fst (doPut2 davServer newResponse (request ''PUT'' ''/dav/docs'' [''x''] None) davFiles)) = Some 405 \<and>
   snd (doPut2 davServer newResponse (request ''PUT'' ''/dav/docs'' [''x''] None) davFiles) = davFiles \<and>
   filter mutating (snd (snd (doPut2 (spy davServer) newResponse (request ''PUT'' ''/dav/docs'' [''x''] None) (davFiles, [])))) = []"
proof -
  let ?r = "request ''PUT'' ''/dav/docs'' [''x''] None"
  have ro: "\<not> ReadOnly davServer" by code_simp
  have nr: "status newResponse = None" by code_simp
  have d: "pathIsDirectory davServer (url2path davServer (URL ?r)) davFiles = (True, davFiles)"
    by code_simp
  show ?thesis using doPut2_directory_untouched[OF ro nr d] by simp
qed

text \<open>
  Claim C2. A PUT on a path that is a directory is to be answered 405 with no \<open>Create\<close>
  and no change of the backend. The first \<open>doPut\<close> (lines 210 to 262) has its directory
  check commented out: on the directory \<open>/dav/docs\<close> of the local directory backend its
  directory test would say yes, but it calls \<open>Mkdir\<close> on the parent and \<open>Create\<close> on the
  path, and answers 409 when \<open>Create\<close> fails on the directory.
\<close>

theorem doPut_directory_conflict:
  "pathIsDirectory davServer (url2path davServer (URL (request ''PUT'' ''/dav/docs'' [''x''] None))) davFiles = (True, davFiles) \<and>
   status (fst (doPut davServer newResponse (request ''PUT'' ''/dav/docs'' [''x''] None) davFiles)) = Some 409 \<and>
   snd (snd (doPut (spy davServer) newResponse (request ''PUT'' ''/dav/docs'' [''x''] None) (davFiles, []))) =
     [Call_Mkdir ''.'', Call_Open ''docs'', Call_Close (OsFile ''/srv/dav/docs'' False), Call_Create ''docs'']"
  by code_simp

section \<open>PUT on the local directory backend\<close>

lemma map_of_update: "map_of (AList.update k v al) = (map_of al)(k \<mapsto> v)"
  by (rule AList.update_conv')

lemma os_Write_dirs:
  "map_of fs x = Some Directory \<Longrightarrow> map_of (snd (os_Write f c fs)) x = Some Directory"
  by (auto simp: os_Write_def map_of_update split: option.splits node.splits)

lemma os_Write_append:
  "map_of fs p = Some (RegFile c) \<Longrightarrow>
   os_Write (OsFile p True) chunk fs = (None, AList.update p (RegFile (c @ chunk)) fs)"
  by (simp add: os_Write_def)

lemma Dir_io_Copy:
  "map_of fs p = Some (RegFile c) \<Longrightarrow>
   fst (io_Copy (Dir h d) (OsFile p True) chunks e fs) = e \<and>
   map_of (snd (io_Copy (Dir h d) (OsFile p True) chunks e fs)) p =
     Some (RegFile (c @ concat chunks))"
proof (induction chunks arbitrary: fs c)
  case Nil
  then show ?case by simp
next
  case (Cons chunk chunks)
  let ?fs' = "AList.update p (RegFile (c @ chunk)) fs"
  have w: "os_Write (OsFile p True) chunk fs = (None, ?fs')"
    using Cons.prems by (rule os_Write_append)
  have "map_of ?fs' p = Some (RegFile (c @ chunk))" by (simp add: map_of_update)
  from Cons.IH[OF this] show ?case using w by (simp add: Dir_def)
qed

lemma Dir_io_Copy_dirs:
  "map_of fs x = Some Directory \<Longrightarrow>
   map_of (snd (io_Copy (Dir h d) f chunks e fs)) x = Some Directory"
proof (induction chunks arbitrary: fs)
  case Nil
  then show ?case by simp
next
  case (Cons chunk chunks)
  obtain res fs' where w: "os_Write f chunk fs = (res, fs')" by (cases "os_Write f chunk fs")
  have d: "map_of fs' x = Some Directory" using os_Write_dirs[OF Cons.prems, of f chunk] w by simp
  show ?case
  proof (cases res)
    case None
    then show ?thesis using w Cons.IH[OF d] by (simp add: Dir_def)
  next
    case (Some err)
    then show ?thesis using w d by (simp add: Dir_def)
  qed
qed

lemma Dir_Create_result:
  "Dir_Create h d name fs = (Inr file, fs3) \<Longrightarrow>
   \<exists>p. sanitizePath h d name = Inr p \<and> file = OsFile p True \<and>
       map_of fs3 p = Some (RegFile []) \<and> map_of fs p \<noteq> Some Directory"
  by (auto simp: Dir_Create_def os_Create_def map_of_update
      split: sum.splits option.splits node.splits)

lemma Dir_Create_dirs:
  "map_of fs x = Some Directory \<Longrightarrow> map_of (snd (Dir_Create h d name fs)) x = Some Directory"
  by (auto simp: Dir_Create_def os_Create_def map_of_update
      split: sum.splits option.splits node.splits)

lemma Dir_pathExists:
  "Fs s = Dir h d \<Longrightarrow> sanitizePath h d name = Inr p \<Longrightarrow>
   pathExists s name fs = (map_of fs p \<noteq> None, fs)"
  by (auto simp: pathExists_def Dir_def Dir_Open_def os_Open_def os_Close_def split: option.splits)

lemma Dir_pathExists_invalid:
  "Fs s = Dir h d \<Longrightarrow> sanitizePath h d name = Inl err \<Longrightarrow> pathExists s name fs = (False, fs)"
  by (simp add: pathExists_def Dir_def Dir_Open_def)

lemma Dir_pathIsDirectory:
  "Fs s = Dir h d \<Longrightarrow> sanitizePath h d name = Inr p \<Longrightarrow>
   pathIsDirectory s name fs = (map_of fs p = Some Directory, fs)"
  by (auto simp: pathIsDirectory_def Dir_def Dir_Open_def os_Open_def os_Stat_def os_Close_def
      split: option.splits)

lemma os_Mkdir_change:
  "map_of (snd (os_Mkdir h p fs)) x = map_of fs x \<or>
   (map_of fs x = None \<and> map_of (snd (os_Mkdir h p fs)) x = Some Directory)"
  by (auto simp: os_Mkdir_def map_of_update split: option.splits node.splits)

lemma mkdirLast_change:
  "map_of (snd (mkdirLast h p fs)) x = map_of fs x \<or>
   (map_of fs x = None \<and> map_of (snd (mkdirLast h p fs)) x = Some Directory)"
proof -
  obtain res fs' where m: "os_Mkdir h p fs = (res, fs')" by (cases "os_Mkdir h p fs")
  have "snd (mkdirLast h p fs) = fs'"
    using m by (auto simp: mkdirLast_def split: option.splits node.splits)
  then show ?thesis using os_Mkdir_change[of h p fs x] m by simp
qed

lemma mkdirLast_made:
  "mkdirLast h p fs = (None, fs') \<Longrightarrow> map_of fs' p = Some Directory"
  by (auto simp: mkdirLast_def os_Mkdir_def map_of_update split: option.splits node.splits prod.splits)

lemma os_MkdirAll_change:
  "map_of (snd (os_MkdirAll h p fs)) x = map_of fs x \<or>
   (map_of fs x = None \<and> map_of (snd (os_MkdirAll h p fs)) x = Some Directory)"
proof (induction h p fs rule: os_MkdirAll.induct)
  case (1 h p fs)
  show ?case
  proof (cases "map_of fs p")
    case (Some n)
    then show ?thesis by (cases n) (simp_all add: os_MkdirAll.simps[of h p fs])
  next
    case None
    show ?thesis
    proof (cases "1 < length (parentPrefix h p)")
      case False
      then have "os_MkdirAll h p fs = mkdirLast h p fs"
        using None by (simp add: os_MkdirAll.simps[of h p fs])
      then show ?thesis using mkdirLast_change[of h p fs x] by simp
    next
      case True
      let ?a = "butlast (parentPrefix h p)"
      obtain res fs1 where r: "os_MkdirAll h ?a fs = (res, fs1)" by (cases "os_MkdirAll h ?a fs")
      have ih: "map_of fs1 x = map_of fs x \<or> (map_of fs x = None \<and> map_of fs1 x = Some Directory)"
        using "1.IH"[OF None True] r by simp
      show ?thesis
      proof (cases res)
        case (Some err)
        then have "os_MkdirAll h p fs = (Some err, fs1)"
          using None True r by (simp add: os_MkdirAll.simps[of h p fs])
        then show ?thesis using ih by simp
      next
        case none: None
        then have "os_MkdirAll h p fs = mkdirLast h p fs1"
          using None True r by (simp add: os_MkdirAll.simps[of h p fs])
        then show ?thesis using ih mkdirLast_change[of h p fs1 x] by auto
      qed
    qed
  qed
qed

lemma Dir_Mkdir_change:
  "map_of (snd (Dir_Mkdir h d name fs)) x = map_of fs x \<or>
   (map_of fs x = None \<and> map_of (snd (Dir_Mkdir h d name fs)) x = Some Directory)"
  using os_MkdirAll_change[of h _ fs x] by (auto simp: Dir_Mkdir_def split: sum.splits)

lemma doPut_Dir_success:
  assumes D: "Fs s = Dir h d" and ro: "\<not> ReadOnly s" and w: "status w = None"
    and ok: "status (fst (doPut s w r fs)) = Some 201 \<or> status (fst (doPut s w r fs)) = Some 204"
  shows "\<exists>p. sanitizePath h d (url2path s (URL r)) = Inr p \<and>
           map_of (snd (doPut s w r fs)) p = Some (RegFile (concat (Body r))) \<and>
           status (fst (doPut s w r fs)) =
             Some (if map_of (snd (Dir_Mkdir h d (path_Dir (url2path s (URL r))) fs)) p \<noteq> None
                   then 204 else 201) \<and>
           map_of (snd (Dir_Mkdir h d (path_Dir (url2path s (URL r))) fs)) p \<noteq> Some Directory"
proof -
  let ?path = "url2path s (URL r)"
  let ?fsm = "snd (Dir_Mkdir h d (path_Dir ?path) fs)"
  obtain ex fs2 where pe: "pathExists s ?path ?fsm = (ex, fs2)" by (cases "pathExists s ?path ?fsm")
  have fs2: "fs2 = ?fsm" using Dir_pathExists_state[OF D, of ?path ?fsm] pe by simp
  obtain cr fs3 where c: "Dir_Create h d ?path ?fsm = (cr, fs3)" by (cases "Dir_Create h d ?path ?fsm")
  have pe': "pathExists s ?path ?fsm = (ex, ?fsm)" using pe fs2 by simp
  show ?thesis
  proof (cases cr)
    case (Inl err)
    then have "doPut s w r fs = (WriteHeader w StatusConflict, fs3)"
      using D ro pe' c by (simp add: doPut_def Let_def split_def)
    then show ?thesis using ok w by (simp add: status_WriteHeader StatusConflict_def)
  next
    case (Inr fl)
    obtain p where p: "sanitizePath h d ?path = Inr p" "fl = OsFile p True"
      "map_of fs3 p = Some (RegFile [])" "map_of ?fsm p \<noteq> Some Directory"
      using Dir_Create_result[of h d ?path ?fsm fl fs3] c Inr by auto
    have ex: "ex = (map_of ?fsm p \<noteq> None)" using Dir_pathExists[OF D p(1), of ?fsm] pe by simp
    obtain e fs4 where cp: "io_Copy (Dir h d) fl (Body r) (BodyErr r) fs3 = (e, fs4)"
      by (cases "io_Copy (Dir h d) fl (Body r) (BodyErr r) fs3")
    have cpr: "e = BodyErr r \<and> map_of fs4 p = Some (RegFile (concat (Body r)))"
      using Dir_io_Copy[OF p(3), of h d "Body r" "BodyErr r"] cp p(2) by simp
    show ?thesis
    proof (cases e)
      case (Some err)
      then have "doPut s w r fs = (WriteHeader w StatusConflict, fs4)"
        using D ro pe' c Inr cp by (simp add: doPut_def Let_def split_def os_Close_def)
      then show ?thesis using ok w by (simp add: status_WriteHeader StatusConflict_def)
    next
      case None
      then have "doPut s w r fs =
          (if ex then WriteHeader w StatusNoContent else WriteHeader w StatusCreated, fs4)"
        using D ro pe' c Inr cp by (simp add: doPut_def Let_def split_def os_Close_def)
      then show ?thesis using p cpr ex w
        by (auto simp: status_WriteHeader StatusNoContent_def StatusCreated_def)
    qed
  qed
qed

lemma doPut2_Dir_success:
  assumes D: "Fs s = Dir h d" and ro: "\<not> ReadOnly s" and w: "status w = None"
    and ok: "status (fst (doPut2 s w r fs)) = Some 201 \<or> status (fst (doPut2 s w r fs)) = Some 204"
  shows "\<exists>p. sanitizePath h d (url2path s (URL r)) = Inr p \<and>
           map_of (snd (doPut2 s w r fs)) p = Some (RegFile (concat (Body r))) \<and>
           status (fst (doPut2 s w r fs)) = Some (if map_of fs p \<noteq> None then 204 else 201) \<and>
           map_of fs p \<noteq> Some Directory"
proof -
  let ?path = "url2path s (URL r)"
  obtain isd fs1 where pd: "pathIsDirectory s ?path fs = (isd, fs1)" by (cases "pathIsDirectory s ?path fs")
  have fs1: "fs1 = fs" using Dir_pathIsDirectory_state[OF D, of ?path fs] pd by simp
  have nd: "\<not> isd"
  proof
    assume isd
    then have "doPut2 s w r fs = (WriteHeader w StatusMethodNotAllowed, fs1)"
      using ro pd by (simp add: doPut2_def)
    then show False using ok w by (simp add: status_WriteHeader StatusMethodNotAllowed_def)
  qed
  obtain ex fs2 where pe: "pathExists s ?path fs = (ex, fs2)" by (cases "pathExists s ?path fs")
  have fs2: "fs2 = fs" using Dir_pathExists_state[OF D, of ?path fs] pe by simp
  obtain cr fs3 where c: "Dir_Create h d ?path fs = (cr, fs3)" by (cases "Dir_Create h d ?path fs")
  have pd': "pathIsDirectory s ?path fs = (False, fs)" using pd fs1 nd by simp
  have pe': "pathExists s ?path fs = (ex, fs)" using pe fs2 by simp
  show ?thesis
  proof (cases cr)
    case (Inl err)
    then have "doPut2 s w r fs = (WriteHeader w StatusConflict, fs3)"
      using D ro pd' pe' c by (simp add: doPut2_def Let_def split_def)
    then show ?thesis using ok w by (simp add: status_WriteHeader StatusConflict_def)
  next
    case (Inr fl)
    obtain p where p: "sanitizePath h d ?path = Inr p" "fl = OsFile p True"
      "map_of fs3 p = Some (RegFile [])" "map_of fs p \<noteq> Some Directory"
      using Dir_Create_result[of h d ?path fs fl fs3] c Inr by auto
    have ex: "ex = (map_of fs p \<noteq> None)" using Dir_pathExists[OF D p(1), of fs] pe by simp
    obtain e fs4 where cp: "io_Copy (Dir h d) fl (Body r) (BodyErr r) fs3 = (e, fs4)"
      by (cases "io_Copy (Dir h d) fl (Body r) (BodyErr r) fs3")
    have cpr: "e = BodyErr r \<and> map_of fs4 p = Some (RegFile (concat (Body r)))"
      using Dir_io_Copy[OF p(3), of h d "Body r" "BodyErr r"] cp p(2) by simp
    show ?thesis
    proof (cases e)
      case (Some err)
      then have "doPut2 s w r fs = (WriteHeader w StatusConflict, fs4)"
        using D ro pd' pe' c Inr cp by (simp add: doPut2_def Let_def split_def os_Close_def)
      then show ?thesis using ok w by (simp add: status_WriteHeader StatusConflict_def)
    next
      case None
      then have "doPut2 s w r fs =
          (if ex then WriteHeader w StatusNoContent else WriteHeader w StatusCreated, fs4)"
        using D ro pd' pe' c Inr cp by (simp add: doPut2_def Let_def split_def os_Close_def)
      then show ?thesis using p cpr ex w
        by (auto simp: status_WriteHeader StatusNoContent_def StatusCreated_def)
    qed
  qed
qed

lemma put_Dir_success:
  fixes put :: "(hostfs, osFile) Server \<Rightarrow> ResponseWriter \<Rightarrow> Request \<Rightarrow> hostfs \<Rightarrow> ResponseWriter \<times> hostfs"
  assumes v: "put = doPut \<or> put = doPut2"
    and D: "Fs s = Dir h d" and ro: "\<not> ReadOnly s" and w: "status w = None"
    and ok: "status (fst (put s w r fs)) = Some 201 \<or> status (fst (put s w r fs)) = Some 204"
  shows "\<exists>p. sanitizePath h d (url2path s (URL r)) = Inr p \<and>
           map_of (snd (put s w r fs)) p = Some (RegFile (concat (Body r))) \<and>
           status (fst (put s w r fs)) = Some (if map_of fs p \<noteq> None then 204 else 201)"
proof -
  from v show ?thesis
  proof
    assume e: "put = doPut"
    let ?fsm = "snd (Dir_Mkdir h d (path_Dir (url2path s (URL r))) fs)"
    obtain p where p: "sanitizePath h d (url2path s (URL r)) = Inr p"
      "map_of (snd (doPut s w r fs)) p = Some (RegFile (concat (Body r)))"
      "status (fst (doPut s w r fs)) = Some (if map_of ?fsm p \<noteq> None then 204 else 201)"
      "map_of ?fsm p \<noteq> Some Directory"
      using doPut_Dir_success[OF D ro w] ok e by blast
    have "(map_of ?fsm p \<noteq> None) = (map_of fs p \<noteq> None)"
      using Dir_Mkdir_change[of h d "path_Dir (url2path s (URL r))" fs p] p(4) by auto
    then show ?thesis using p e by auto
  next
    assume e: "put = doPut2"
    then show ?thesis using doPut2_Dir_success[OF D ro w] ok by blast
  qed
qed

text \<open>
  Claim C4. On a server that is not read-only, with the local directory backend and
  either copy of \<open>doPut\<close>: a successful PUT (answered 201 or 204) to a path that did not
  exist is answered 201; a successful second PUT to the same path, on the file system
  the first one left, is answered 204, and the file then holds the bytes of the second
  body and nothing else.
\<close>

theorem put_twice:
  fixes put :: "(hostfs, osFile) Server \<Rightarrow> ResponseWriter \<Rightarrow> Request \<Rightarrow> hostfs \<Rightarrow> ResponseWriter \<times> hostfs"
  assumes v: "put = doPut \<or> put = doPut2"
    and D: "Fs s = Dir h d" and ro: "\<not> ReadOnly s" and w: "status w = None"
    and same: "URL r2 = URL r1"
    and new: "fst (pathExists s (url2path s (URL r1)) fs) = False"
    and ok1: "status (fst (put s w r1 fs)) = Some 201 \<or> status (fst (put s w r1 fs)) = Some 204"
  shows "status (fst (put s w r1 fs)) = Some 201 \<and>
         (status (fst (put s w r2 (snd (put s w r1 fs)))) = Some 201 \<or>
          status (fst (put s w r2 (snd (put s w r1 fs)))) = Some 204 \<longrightarrow>
          status (fst (put s w r2 (snd (put s w r1 fs)))) = Some 204 \<and>
          (\<exists>p. sanitizePath h d (url2path s (URL r1)) = Inr p \<and>
               map_of (snd (put s w r2 (snd (put s w r1 fs)))) p =
                 Some (RegFile (concat (Body r2)))))"
proof -
  let ?fs1 = "snd (put s w r1 fs)"
  obtain p where p: "sanitizePath h d (url2path s (URL r1)) = Inr p"
    "map_of ?fs1 p = Some (RegFile (concat (Body r1)))"
    "status (fst (put s w r1 fs)) = Some (if map_of fs p \<noteq> None then 204 else 201)"
    using put_Dir_success[OF v D ro w ok1] by blast
  have "map_of fs p = None" using Dir_pathExists[OF D p(1), of fs] new by simp
  then have first: "status (fst (put s w r1 fs)) = Some 201" using p(3) by simp
  have second: "status (fst (put s w r2 ?fs1)) = Some 204 \<and>
      (\<exists>p. sanitizePath h d (url2path s (URL r1)) = Inr p \<and>
           map_of (snd (put s w r2 ?fs1)) p = Some (RegFile (concat (Body r2))))"
    if ok2: "status (fst (put s w r2 ?fs1)) = Some 201 \<or> status (fst (put s w r2 ?fs1)) = Some 204"
  proof -
    obtain q where q: "sanitizePath h d (url2path s (URL r2)) = Inr q"
      "map_of (snd (put s w r2 ?fs1)) q = Some (RegFile (concat (Body r2)))"
      "status (fst (put s w r2 ?fs1)) = Some (if map_of ?fs1 q \<noteq> None then 204 else 201)"
      using put_Dir_success[OF v D ro w ok2] by blast
    have "q = p" using p(1) q(1) same by simp
    then show ?thesis using p q by auto
  qed
  show ?thesis using first second by blast
qed

theorem put_twice_witness:
  "status (fst (doPut2 davServer newResponse (request ''PUT'' ''/dav/docs/b.txt'' [''first '', ''body''] None) davFiles)) = Some 201 \<and>
   status (fst (doPut2 davServer newResponse (request ''PUT'' ''/dav/docs/b.txt'' [''second''] None)
     (snd (doPut2 davServer newResponse (request ''PUT'' ''/dav/docs/b.txt'' [''first '', ''body''] None) davFiles)))) = Some 204 \<and>
   map_of (snd (doPut2 davServer newResponse (request ''PUT'' ''/dav/docs/b.txt'' [''second''] None)
     (snd (doPut2 davServer newResponse (request ''PUT'' ''/dav/docs/b.txt'' [''first '', ''body''] None) davFiles))))
     ''/srv/dav/docs/b.txt'' = Some (RegFile ''second'') \<and>
   status (fst (doPut davServer newResponse (request ''PUT'' ''/dav/new/b.txt'' [''first '', ''body''] None) davFiles)) = Some 201 \<and>
   status (fst (doPut davServer newResponse (request ''PUT'' ''/dav/new/b.txt'' [''second''] None)
     (snd (doPut davServer newResponse (request ''PUT'' ''/dav/new/b.txt'' [''first '', ''body''] None) davFiles)))) = Some 204 \<and>
   map_of (snd (doPut davServer newResponse (request ''PUT'' ''/dav/new/b.txt'' [''second''] None)
     (snd (doPut davServer newResponse (request ''PUT'' ''/dav/new/b.txt'' [''first '', ''body''] None) davFiles))))
     ''/srv/dav/new/b.txt'' = Some (RegFile ''second'')"
proof -
  let ?a1 = "request ''PUT'' ''/dav/docs/b.txt'' [''first '', ''body''] None"
  let ?a2 = "request ''PUT'' ''/dav/docs/b.txt'' [''second''] None"
  let ?b1 = "request ''PUT'' ''/dav/new/b.txt'' [''first '', ''body''] None"
  let ?b2 = "request ''PUT'' ''/dav/new/b.txt'' [''second''] None"
  have D: "Fs davServer = Dir Unix ''/srv/dav''" by (simp add: davServer_def NewServer_def)
  have ro: "\<not> ReadOnly davServer" by code_simp
  have nr: "status newResponse = None" by code_simp
  have sa: "URL ?a2 = URL ?a1" by (simp add: request_def)
  have sb: "URL ?b2 = URL ?b1" by (simp add: request_def)
  have na: "fst (pathExists davServer (url2path davServer (URL ?a1)) davFiles) = False" by code_simp
  have nb: "fst (pathExists davServer (url2path davServer (URL ?b1)) davFiles) = False" by code_simp
  have oa1: "status (fst (doPut2 davServer newResponse ?a1 davFiles)) = Some 201 \<or>
             status (fst (doPut2 davServer newResponse ?a1 davFiles)) = Some 204" by code_simp
  have oa2: "status (fst (doPut2 davServer newResponse ?a2 (snd (doPut2 davServer newResponse ?a1 davFiles)))) = Some 201 \<or>
             status (fst (doPut2 davServer newResponse ?a2 (snd (doPut2 davServer newResponse ?a1 davFiles)))) = Some 204"
    by code_simp
  have ob1: "status (fst (doPut davServer newResponse ?b1 davFiles)) = Some 201 \<or>
             status (fst (doPut davServer newResponse ?b1 davFiles)) = Some 204" by code_simp
  have ob2: "status (fst (doPut davServer newResponse ?b2 (snd (doPut davServer newResponse ?b1 davFiles)))) = Some 201 \<or>
             status (fst (doPut davServer newResponse ?b2 (snd (doPut davServer newResponse ?b1 davFiles)))) = Some 204"
    by code_simp
  have pa: "sanitizePath Unix ''/srv/dav'' (url2path davServer (URL ?a1)) = Inr ''/srv/dav/docs/b.txt''"
    by code_simp
  have pb: "sanitizePath Unix ''/srv/dav'' (url2path davServer (URL ?b1)) = Inr ''/srv/dav/new/b.txt''"
    by code_simp
  have ca: "concat (Body ?a2) = ''second''" by (simp add: request_def)
  have cb: "concat (Body ?b2) = ''second''" by (simp add: request_def)
  have A: "status (fst (doPut2 davServer newResponse ?a1 davFiles)) = Some 201 \<and>
      status (fst (doPut2 davServer newResponse ?a2 (snd (doPut2 davServer newResponse ?a1 davFiles)))) = Some 204 \<and>
      map_of (snd (doPut2 davServer newResponse ?a2 (snd (doPut2 davServer newResponse ?a1 davFiles))))
        ''/srv/dav/docs/b.txt'' = Some (RegFile ''second'')"
    using put_twice[of doPut2, OF _ D ro nr sa na oa1] oa2 pa ca by auto
  have B: "status (fst (doPut davServer newResponse ?b1 davFiles)) = Some 201 \<and>
      status (fst (doPut davServer newResponse ?b2 (snd (doPut davServer newResponse ?b1 davFiles)))) = Some 204 \<and>
      map_of (snd (doPut davServer newResponse ?b2 (snd (doPut davServer newResponse ?b1 davFiles))))
        ''/srv/dav/new/b.txt'' = Some (RegFile ''second'')"
    using put_twice[of doPut, OF _ D ro nr sb nb ob1] ob2 pb cb by auto
  show ?thesis using A B by simp
qed

subsection \<open>The parent directories of a PUT\<close>

declare os_MkdirAll.simps [simp del] missingChain.simps [simp del]

lemma os_MkdirAll_made:
  "os_MkdirAll h p fs = (None, fs') \<Longrightarrow>
   map_of fs' p = Some Directory \<and> (\<forall>a\<in>set (missingChain h p fs). map_of fs' a = Some Directory)"
proof (induction h p fs arbitrary: fs' rule: os_MkdirAll.induct)
  case (1 h p fs)
  show ?case
  proof (cases "map_of fs p")
    case (Some n)
    then have mc: "missingChain h p fs = []" by (simp add: missingChain.simps[of h p fs])
    have "os_MkdirAll h p fs = (case n of RegFile c \<Rightarrow> (Some ENOTDIR, fs) | Directory \<Rightarrow> (None, fs))"
      using Some by (simp add: os_MkdirAll.simps[of h p fs])
    then have "n = Directory \<and> fs' = fs" using "1.prems" by (cases n) simp_all
    then show ?thesis using Some mc by simp
  next
    case None
    show ?thesis
    proof (cases "1 < length (parentPrefix h p)")
      case False
      then have "mkdirLast h p fs = (None, fs')"
        using None "1.prems" by (simp add: os_MkdirAll.simps[of h p fs])
      then have "map_of fs' p = Some Directory" by (rule mkdirLast_made)
      then show ?thesis using None False by (simp add: missingChain.simps[of h p fs])
    next
      case True
      let ?a = "butlast (parentPrefix h p)"
      obtain res fs1 where r: "os_MkdirAll h ?a fs = (res, fs1)" by (cases "os_MkdirAll h ?a fs")
      have res: "res = None"
      proof (cases res)
        case (Some err)
        then have "os_MkdirAll h p fs = (Some err, fs1)"
          using None True r by (simp add: os_MkdirAll.simps[of h p fs])
        then show ?thesis using "1.prems" by simp
      qed simp
      then have l: "mkdirLast h p fs1 = (None, fs')"
        using None True r "1.prems" by (simp add: os_MkdirAll.simps[of h p fs])
      have ih: "map_of fs1 ?a = Some Directory \<and>
                (\<forall>a\<in>set (missingChain h ?a fs). map_of fs1 a = Some Directory)"
        using "1.IH"[OF None True, of fs1] r res by blast
      have keep: "map_of fs1 x = Some Directory \<Longrightarrow> map_of fs' x = Some Directory" for x
        using mkdirLast_change[of h p fs1 x] l by auto
      have "map_of fs' p = Some Directory" using l by (rule mkdirLast_made)
      moreover have "\<forall>a\<in>set (missingChain h ?a fs). map_of fs' a = Some Directory"
        using ih keep by blast
      ultimately show ?thesis using None True by (simp add: missingChain.simps[of h p fs])
    qed
  qed
qed

lemma doPut_Dir_dirs:
  assumes D: "Fs s = Dir h d" and ro: "\<not> ReadOnly s"
    and x: "map_of (snd (Dir_Mkdir h d (path_Dir (url2path s (URL r))) fs)) x = Some Directory"
  shows "map_of (snd (doPut s w r fs)) x = Some Directory"
proof -
  let ?path = "url2path s (URL r)"
  let ?fsm = "snd (Dir_Mkdir h d (path_Dir ?path) fs)"
  obtain ex where pe: "pathExists s ?path ?fsm = (ex, ?fsm)"
    using Dir_pathExists_state[OF D, of ?path ?fsm] by (metis prod.collapse)
  obtain cr fs3 where c: "Dir_Create h d ?path ?fsm = (cr, fs3)" by (cases "Dir_Create h d ?path ?fsm")
  have x3: "map_of fs3 x = Some Directory" using Dir_Create_dirs[OF x, of h d ?path] c by simp
  show ?thesis
  proof (cases cr)
    case (Inl err)
    then have "snd (doPut s w r fs) = fs3"
      using D ro pe c by (simp add: doPut_def Let_def split_def)
    then show ?thesis using x3 by simp
  next
    case (Inr fl)
    obtain e fs4 where cp: "io_Copy (Dir h d) fl (Body r) (BodyErr r) fs3 = (e, fs4)"
      by (cases "io_Copy (Dir h d) fl (Body r) (BodyErr r) fs3")
    have x4: "map_of fs4 x = Some Directory"
      using Dir_io_Copy_dirs[OF x3, of h d fl "Body r" "BodyErr r"] cp by simp
    have "snd (doPut s w r fs) = fs4"
      using D ro pe c Inr cp by (cases e) (simp_all add: doPut_def Let_def split_def os_Close_def)
    then show ?thesis using x4 by simp
  qed
qed

lemma io_Copy_logged:
  "\<exists>l'. snd (snd (io_Copy (logged B) f cs e (fs, l))) = l @ l'"
proof (induction cs arbitrary: fs l)
  case Nil
  then show ?case by simp
next
  case (Cons c cs)
  show ?case
  proof (cases "fst (Write B f c fs)")
    case None
    obtain l' where "snd (snd (io_Copy (logged B) f cs e (snd (Write B f c fs), l @ [Call_Write f c]))) =
        (l @ [Call_Write f c]) @ l'"
      using Cons.IH by blast
    then show ?thesis using None by simp
  next
    case (Some err)
    then show ?thesis by simp
  qed
qed

lemma doPut_spy_log:
  assumes ro: "\<not> ReadOnly s"
  shows "\<exists>mid rest. snd (snd (doPut (spy s) w r (fs, []))) =
           Call_Mkdir (path_Dir (url2path s (URL r))) # mid @ Call_Create (url2path s (URL r)) # rest \<and>
           filter mutating mid = []"
proof -
  let ?path = "url2path s (URL r)"
  let ?B = "Fs s"
  let ?fs1 = "snd (Mkdir ?B (path_Dir ?path) fs)"
  let ?l1 = "[Call_Mkdir (path_Dir ?path)]"
  obtain ex fs2 where pe0: "pathExists s ?path ?fs1 = (ex, fs2)" by (cases "pathExists s ?path ?fs1")
  obtain l2 where pe: "pathExists (spy s) ?path (?fs1, ?l1) = (ex, (fs2, l2))"
    and m2: "\<forall>c\<in>set l2. c \<in> set ?l1 \<or> \<not> mutating c"
    using pathExists_spy_eq[OF pe0, of ?l1] by blast
  have "\<exists>mid. l2 = ?l1 @ mid \<and> filter mutating mid = []"
    using pe pe0 by (auto simp: pathExists_spy pathExists_def split: prod.splits sum.splits)
  then obtain mid where mid: "l2 = ?l1 @ mid" "filter mutating mid = []" by blast
  obtain cr fs3 where c: "Create ?B ?path fs2 = (cr, fs3)" by (cases "Create ?B ?path fs2")
  let ?l3 = "l2 @ [Call_Create ?path]"
  show ?thesis
  proof (cases cr)
    case (Inl err)
    then have "snd (snd (doPut (spy s) w r (fs, []))) = ?l3"
      using ro pe c by (simp add: doPut_def Let_def split_def)
    then show ?thesis using mid by auto
  next
    case (Inr fl)
    obtain l' where cp: "snd (snd (io_Copy (logged ?B) fl (Body r) (BodyErr r) (fs3, ?l3))) = ?l3 @ l'"
      using io_Copy_logged[of "Fs s" fl "Body r" "BodyErr r" fs3 ?l3] by blast
    obtain e st where cpe: "io_Copy (logged ?B) fl (Body r) (BodyErr r) (fs3, ?l3) = (e, st)"
      by (cases "io_Copy (logged ?B) fl (Body r) (BodyErr r) (fs3, ?l3)")
    obtain fs4 where st: "st = (fs4, ?l3 @ l')" using cp cpe by (cases st) auto
    have "snd (snd (doPut (spy s) w r (fs, []))) = ?l3 @ l' @ [Call_Close fl]"
      using ro pe c Inr cpe st by (cases e) (simp_all add: doPut_def Let_def split_def)
    then show ?thesis using mid by auto
  qed
qed

text \<open>
  Claim C10. On a server that is not read-only, the first \<open>doPut\<close> calls \<open>Mkdir\<close> on the
  parent of the resolved path before anything else, and \<open>Create\<close> on the path after it,
  with no other changing call between the two. With the local directory backend, when
  that \<open>Mkdir\<close> succeeds the parent and every path \<open>os.MkdirAll\<close> found missing on the way up
  from it are directories afterwards, and they still are when \<open>doPut\<close> returns, whatever
  its answer.
\<close>

theorem doPut_makes_parents:
  assumes "\<not> ReadOnly s"
  shows "(\<exists>mid rest. snd (snd (doPut (spy s) w r (fs, []))) =
            Call_Mkdir (path_Dir (url2path s (URL r))) # mid @
            Call_Create (url2path s (URL r)) # rest \<and> filter mutating mid = []) \<and>
         (\<forall>h d q fs1.
            Fs s = Dir h d \<longrightarrow>
            sanitizePath h d (path_Dir (url2path s (URL r))) = Inr q \<longrightarrow>
            Mkdir (Fs s) (path_Dir (url2path s (URL r))) fs = (None, fs1) \<longrightarrow>
            fs1 = snd (os_MkdirAll h q fs) \<and>
            (\<forall>a\<in>set (q # missingChain h q fs).
               map_of fs1 a = Some Directory \<and>
               map_of (snd (doPut s w r fs)) a = Some Directory))"
proof (intro conjI allI impI)
  show "\<exists>mid rest. snd (snd (doPut (spy s) w r (fs, []))) =
            Call_Mkdir (path_Dir (url2path s (URL r))) # mid @
            Call_Create (url2path s (URL r)) # rest \<and> filter mutating mid = []"
    using doPut_spy_log[OF assms] .
next
  fix h d q fs1
  let ?dir = "path_Dir (url2path s (URL r))"
  assume D: "Fs s = Dir h d" and q: "sanitizePath h d ?dir = Inr q"
    and m: "Mkdir (Fs s) ?dir fs = (None, fs1)"
  have mk: "os_MkdirAll h q fs = (None, fs1)" using D q m by (simp add: Dir_Mkdir_def)
  then show "fs1 = snd (os_MkdirAll h q fs)" by simp
  have made: "\<forall>a\<in>set (q # missingChain h q fs). map_of fs1 a = Some Directory"
    using os_MkdirAll_made[OF mk] by simp
  have fsm: "snd (Dir_Mkdir h d ?dir fs) = fs1" using D m by simp
  show "\<forall>a\<in>set (q # missingChain h q fs).
          map_of fs1 a = Some Directory \<and> map_of (snd (doPut s w r fs)) a = Some Directory"
  proof
    fix a assume "a \<in> set (q # missingChain h q fs)"
    then have a: "map_of fs1 a = Some Directory" using made by blast
    then have "map_of (snd (doPut s w r fs)) a = Some Directory"
      using doPut_Dir_dirs[OF D assms, of r fs a] fsm by simp
    then show "map_of fs1 a = Some Directory \<and> map_of (snd (doPut s w r fs)) a = Some Directory"
      using a by simp
  qed
qed

theorem doPut_makes_parents_witness:
  "missingChain Unix ''/srv/dav/x/y'' davFiles = [''/srv/dav/x/y'', ''/srv/dav/x''] \<and>
   status (fst (doPut davServer newResponse (request ''PUT'' ''/dav/x/y/f'' [''part''] (Some ErrUnexpectedEOF)) davFiles)) = Some 409 \<and>
   map_of (snd (doPut davServer newResponse (request ''PUT'' ''/dav/x/y/f'' [''part''] (Some ErrUnexpectedEOF)) davFiles)) ''/srv/dav/x'' = Some Directory \<and>
   map_of (snd (doPut davServer newResponse (request ''PUT'' ''/dav/x/y/f'' [''part''] (Some ErrUnexpectedEOF)) davFiles)) ''/srv/dav/x/y'' = Some Directory \<and>
   hd (snd (snd (doPut (spy davServer) newResponse (request ''PUT'' ''/dav/x/y/f'' [''part''] (Some ErrUnexpectedEOF)) (davFiles, [])))) = Call_Mkdir ''x/y''"
proof -
  let ?r = "request ''PUT'' ''/dav/x/y/f'' [''part''] (Some ErrUnexpectedEOF)"
  have ro: "\<not> ReadOnly davServer" by code_simp
  have D: "Fs davServer = Dir Unix ''/srv/dav''" by (simp add: davServer_def NewServer_def)
  have u: "path_Dir (url2path davServer (URL ?r)) = ''x/y''" by code_simp
  have q: "sanitizePath Unix ''/srv/dav'' (path_Dir (url2path davServer (URL ?r))) = Inr ''/srv/dav/x/y''"
    by code_simp
  have m: "Mkdir (Fs davServer) (path_Dir (url2path davServer (URL ?r))) davFiles =
           (None, davFiles @ [(''/srv/dav/x'', Directory), (''/srv/dav/x/y'', Directory)])"
    by code_simp
  have ch: "missingChain Unix ''/srv/dav/x/y'' davFiles = [''/srv/dav/x/y'', ''/srv/dav/x'']"
    by code_simp
  have st: "status (fst (doPut davServer newResponse ?r davFiles)) = Some 409" by code_simp
  note T = doPut_makes_parents[OF ro, of newResponse ?r davFiles]
  from T obtain mid rest where
    "snd (snd (doPut (spy davServer) newResponse ?r (davFiles, []))) =
       Call_Mkdir (path_Dir (url2path davServer (URL ?r))) # mid @
       Call_Create (url2path davServer (URL ?r)) # rest"
    by blast
  then have l: "hd (snd (snd (doPut (spy davServer) newResponse ?r (davFiles, [])))) = Call_Mkdir ''x/y''"
    using u by simp
  have "\<forall>a\<in>set (''/srv/dav/x/y'' # missingChain Unix ''/srv/dav/x/y'' davFiles).
          map_of (snd (doPut davServer newResponse ?r davFiles)) a = Some Directory"
    using T D q m by blast
  then have "map_of (snd (doPut davServer newResponse ?r davFiles)) ''/srv/dav/x'' = Some Directory \<and>
             map_of (snd (doPut davServer newResponse ?r davFiles)) ''/srv/dav/x/y'' = Some Directory"
    unfolding ch by simp
  then show ?thesis using ch st l by simp
qed

section \<open>HEAD against GET\<close>

text \<open>
  Claim C6 at a file of five bytes. GET and HEAD are both answered 200 and HEAD sends no
  body, but the headers differ: \<open>http.ServeContent\<close> takes \<open>Content-Length\<close> from a seek to
  the end of the content it is given, which is the file for GET and \<open>emptyFile\<close>, whose
  \<open>Seek\<close> returns 0, for HEAD.
\<close>

theorem head_content_length_differs:
  "status (fst (ServeHTTP davServer newResponse (request ''GET'' ''/dav/docs/a.txt'' [] None) davFiles)) = Some 200 \<and>
   status (fst (ServeHTTP davServer newResponse (request ''HEAD'' ''/dav/docs/a.txt'' [] None) davFiles)) = Some 200 \<and>
   body (fst (ServeHTTP davServer newResponse (request ''GET'' ''/dav/docs/a.txt'' [] None) davFiles)) = ''hello'' \<and>
   body (fst (ServeHTTP davServer newResponse (request ''HEAD'' ''/dav/docs/a.txt'' [] None) davFiles)) = [] \<and>
   header (fst (ServeHTTP davServer newResponse (request ''GET'' ''/dav/docs/a.txt'' [] None) davFiles)) =
     [(''Accept-Ranges'', Text ''bytes''), (''Content-Length'', Num 5)] \<and>
   header (fst (ServeHTTP davServer newResponse (request ''HEAD'' ''/dav/docs/a.txt'' [] None) davFiles)) =
     [(''Accept-Ranges'', Text ''bytes''), (''Content-Length'', Num 0)]"
  by code_simp

end
